theory Spec2Isabelle
  imports Main "HOL-Library.Word"
begin

section \<open>Strings and decimal numbers\<close>

text \<open>
  Go strings are modelled as \<^typ>\<open>string\<close>. The decimal rendering of integers
  (\<^verbatim>\<open>strconv.Itoa\<close>, \<^verbatim>\<open>fmt.Sprint\<close> of an integer) and its parsing
  (\<^verbatim>\<open>strconv.Atoi\<close>) are written out digit by digit.
\<close>

definition digitChar :: "nat \<Rightarrow> char" where
  "digitChar d = ''0123456789'' ! d"

definition isDigit :: "char \<Rightarrow> bool" where
  "isDigit c = (c \<in> set ''0123456789'')"

text \<open>The value of a digit character is its position among the ten digits.\<close>

definition digitVal :: "char \<Rightarrow> nat" where
  "digitVal c = length (takeWhile (\<lambda>d. d \<noteq> c) ''0123456789'')"

fun natString :: "nat \<Rightarrow> string" where
  "natString n = (if n < 10 then [digitChar n] else natString (n div 10) @ [digitChar (n mod 10)])"

declare natString.simps [simp del]

text \<open>The value of a digit string, most significant digit first.\<close>

fun digitsVal :: "nat \<Rightarrow> string \<Rightarrow> nat" where
  "digitsVal acc [] = acc"
| "digitsVal acc (c # cs) = digitsVal (acc * 10 + digitVal c) cs"

text \<open>\<^verbatim>\<open>strconv.Itoa\<close> and \<^verbatim>\<open>fmt.Sprint\<close> on a signed integer.\<close>

definition Itoa :: "int \<Rightarrow> string" where
  "Itoa i = (if i < 0 then CHR ''-'' # natString (nat (- i)) else natString (nat i))"

text \<open>
  \<^verbatim>\<open>strconv.Atoi\<close> on a 64-bit platform: an optional sign, then at least one decimal
  digit and nothing else; a value outside the 64-bit signed range is an error. \<open>None\<close>
  is the error return.
\<close>

definition Atoi :: "string \<Rightarrow> int option" where
  "Atoi s =
     (let neg = (s \<noteq> [] \<and> hd s = CHR ''-'');
          ds = (if s \<noteq> [] \<and> (hd s = CHR ''-'' \<or> hd s = CHR ''+'') then tl s else s)
      in if ds = [] \<or> \<not> list_all isDigit ds then None
         else let v = (if neg then - int (digitsVal 0 ds) else int (digitsVal 0 ds))
              in if v < - (2 ^ 63) \<or> 2 ^ 63 - 1 < v then None else Some v)"

text \<open>\<^verbatim>\<open>strings.Contains\<close>: the second string occurs in the first as a contiguous run.\<close>

fun hasPrefix :: "string \<Rightarrow> string \<Rightarrow> bool" where
  "hasPrefix s [] = True"
| "hasPrefix [] (p # ps) = False"
| "hasPrefix (c # cs) (p # ps) = (c = p \<and> hasPrefix cs ps)"

fun Contains :: "string \<Rightarrow> string \<Rightarrow> bool" where
  "Contains [] substr = (substr = [])"
| "Contains (c # cs) substr = (hasPrefix (c # cs) substr \<or> Contains cs substr)"

section \<open>Selector strings and named ports (services.go)\<close>

text \<open>
  \<^verbatim>\<open>mapToSelectorStr\<close> ranges over a Go map. The argument of the model is the list
  of the map's entries in the order in which that \<^verbatim>\<open>range\<close> loop visits them; the
  accumulator is the local variable \<^verbatim>\<open>selector\<close>.
\<close>

fun mapToSelectorStr_loop :: "string \<Rightarrow> (string \<times> string) list \<Rightarrow> string" where
  "mapToSelectorStr_loop selector [] = selector"
| "mapToSelectorStr_loop selector ((k, v) # rest) =
     mapToSelectorStr_loop
       ((if selector \<noteq> [] then selector @ '','' else selector) @ (k @ ''='' @ v)) rest"

definition mapToSelectorStr :: "(string \<times> string) list \<Rightarrow> string" where
  "mapToSelectorStr msel = mapToSelectorStr_loop [] msel"

text \<open>
  What the description of the selector string says, independently of the loop: one
  \<open>k=v\<close> pair per entry, consecutive pairs separated by one comma.
\<close>

fun commaJoined :: "string list \<Rightarrow> string" where
  "commaJoined [] = []"
| "commaJoined [p] = p"
| "commaJoined (p # q # ps) = p @ '','' @ commaJoined (q # ps)"

definition selectorPair :: "string \<times> string \<Rightarrow> string" where
  "selectorPair e = fst e @ ''='' @ snd e"

text \<open>
  The Kubernetes \<^verbatim>\<open>IntOrString\<close> of a service port's target, and its \<^verbatim>\<open>String()\<close>
  method: the string itself, or the decimal rendering of the 32-bit integer.
\<close>

datatype IntOrString = IntVal "32 word" | StrVal string

fun IntOrString_String :: "IntOrString \<Rightarrow> string" where
  "IntOrString_String (StrVal s) = s"
| "IntOrString_String (IntVal i) = Itoa (sint i)"

record ContainerPort =
  cp_Name :: string
  cp_ContainerPort :: "32 word"

record Container =
  c_Ports :: "ContainerPort list"

text \<open>The inner loop of \<^verbatim>\<open>portSearch\<close> over one container's ports.\<close>

fun portSearch_ports :: "string \<Rightarrow> ContainerPort list \<Rightarrow> string option" where
  "portSearch_ports portName [] = None"
| "portSearch_ports portName (cp # cps) =
     (if cp_Name cp = portName then Some (Itoa (sint (cp_ContainerPort cp)))
      else portSearch_ports portName cps)"

text \<open>\<^verbatim>\<open>portSearch\<close>: \<open>(s, True)\<close> for the first match, \<open>('''', False)\<close> for none.\<close>

fun portSearch :: "string \<Rightarrow> Container list \<Rightarrow> string \<times> bool" where
  "portSearch portName [] = ('''', False)"
| "portSearch portName (container # containers) =
     (case portSearch_ports portName (c_Ports container) of
        Some s \<Rightarrow> (s, True)
      | None \<Rightarrow> portSearch portName containers)"

text \<open>
  Lines 298 to 306 of \<^verbatim>\<open>fwdServices\<close>: the pod port of a service port, from its
  target and the containers of the first pod.
\<close>

definition resolvePodPort :: "IntOrString \<Rightarrow> Container list \<Rightarrow> string" where
  "resolvePodPort targetPort containers =
     (let podPort = IntOrString_String targetPort
      in case Atoi podPort of
           Some _ \<Rightarrow> podPort
         | None \<Rightarrow>
             (case portSearch podPort containers of
                (namedPodPort, ok) \<Rightarrow> if ok then namedPodPort else podPort))"

section \<open>Addresses, ranges and the allocation table (package fwdnet)\<close>

text \<open>
  An IPv4 \<^verbatim>\<open>net.IP\<close> is its 32-bit value; \<^verbatim>\<open>ip.String()\<close> is the dotted decimal
  form of its four octets.
\<close>

type_synonym IP = "32 word"

definition IP_String :: "IP \<Rightarrow> string" where
  "IP_String ip =
     natString (unat ip div 16777216) @ ''.'' @ natString (unat ip div 65536 mod 256) @ ''.'' @
     natString (unat ip div 256 mod 256) @ ''.'' @ natString (unat ip mod 256)"

definition ipv4 :: "nat \<Rightarrow> nat \<Rightarrow> nat \<Rightarrow> nat \<Rightarrow> IP" where
  "ipv4 a b c d = word_of_nat (((a * 256 + b) * 256 + c) * 256 + d)"

record IPRange =
  Start :: IP
  End :: IP

text \<open>\<^verbatim>\<open>strings.Split\<close> with a separator of one character.\<close>

fun splitOn :: "char \<Rightarrow> string \<Rightarrow> string list" where
  "splitOn sep [] = [[]]"
| "splitOn sep (c # cs) =
     (if c = sep then [] # splitOn sep cs
      else (case splitOn sep cs of [] \<Rightarrow> [[c]] | w # ws \<Rightarrow> (c # w) # ws))"

definition parseOctet :: "string \<Rightarrow> nat option" where
  "parseOctet s =
     (if s = [] \<or> \<not> list_all isDigit s \<or> 255 < digitsVal 0 s then None
      else Some (digitsVal 0 s))"

text \<open>
  Modelled from the spec: the range parser \<^verbatim>\<open>ParseIPRange\<close> and the allocator
  (\<^verbatim>\<open>NewAllocator\<close>, \<^verbatim>\<open>Remaining\<close>, \<^verbatim>\<open>Allocate\<close>) of the imported range library,
  whose sources are not part of the repository. An AddressRange is a contiguous span
  written like \<open>127.1.27.1-254\<close> (an address, a dash, the last value of the final
  octet); an invalid specification fails parsing. The allocator hands out the addresses
  of the range one by one in the range's defined order, from the first to the last,
  and \<^verbatim>\<open>Remaining\<close> counts those not handed out yet: the list below is the sequence of
  values of successive \<^verbatim>\<open>ipAllocator.Allocate()\<close> calls.
\<close>

definition ParseIPRange :: "string \<Rightarrow> string + IPRange" where
  "ParseIPRange s =
     (case splitOn CHR ''-'' s of
        [addr, lastOctet] \<Rightarrow>
          (case (those (map parseOctet (splitOn CHR ''.'' addr)), parseOctet lastOctet) of
             (Some [a, b, c, d], Some e) \<Rightarrow>
               if d \<le> e then Inr \<lparr>Start = ipv4 a b c d, End = ipv4 a b c e\<rparr>
               else Inl ''invalid IP range''
           | _ \<Rightarrow> Inl ''invalid IP range'')
      | _ \<Rightarrow> Inl ''invalid IP range'')"

text \<open>
  Modelled from the spec: the candidates of the range allocator, the addresses of the
  range in ascending order (none if the end is below the start).
\<close>

definition rangeAddresses :: "IPRange \<Rightarrow> IP list" where
  "rangeAddresses ipr = map word_of_nat [unat (Start ipr) ..< Suc (unat (End ipr))]"

text \<open>
  The liveness probes. \<open>NewPinger_fails\<close> tells whether \<^verbatim>\<open>ping.NewPinger\<close> returns an
  error for an address string, \<open>PacketsRecv\<close> is the number of replies the pinger's
  statistics report after \<^verbatim>\<open>Run()\<close> (a transport error during the run leaves it at
  the replies received so far, zero if none), and \<open>ping_Output\<close> is the standard output
  of the \<^verbatim>\<open>ping\<close> command of the second allocator (whatever was captured when the
  command failed; its error is discarded by the code).
\<close>

record Probe =
  NewPinger_fails :: "string \<Rightarrow> bool"
  PacketsRecv :: "string \<Rightarrow> int"
  ping_Output :: "string \<Rightarrow> string"

text \<open>
  The package-level map \<^verbatim>\<open>allocated\<close>, and the record of the probes made (the
  addresses for which \<^verbatim>\<open>pinger.Run()\<close> or the \<^verbatim>\<open>ping\<close> command was executed, in order).
\<close>

record AllocTable =
  allocated :: "string \<rightharpoonup> bool"
  probed :: "string list"

datatype error = ParseError string | NoAddresses | Panic

text \<open>
  The loop of \<^verbatim>\<open>Allocate\<close> in the variant that uses the ICMP library. The list is
  what the range allocator has left; \<open>Inl Panic\<close> is the \<^verbatim>\<open>panic(err)\<close>.
\<close>

fun Allocate_loop ::
  "Probe \<Rightarrow> IP list \<Rightarrow> 'a AllocTable_scheme \<Rightarrow> (error + IP) \<times> 'a AllocTable_scheme" where
  "Allocate_loop pr [] t = (Inl NoAddresses, t)"
| "Allocate_loop pr (ip # rest) t =
     (if allocated t (IP_String ip) \<noteq> None then Allocate_loop pr rest t
      else let t1 = t\<lparr>allocated := (allocated t)(IP_String ip \<mapsto> True)\<rparr>
           in if NewPinger_fails pr (IP_String ip) then (Inl Panic, t1)
              else let t2 = t1\<lparr>probed := probed t1 @ [IP_String ip]\<rparr>
                   in if PacketsRecv pr (IP_String ip) = 3 then Allocate_loop pr rest t2
                      else (Inr ip, t2))"

definition Allocate ::
  "Probe \<Rightarrow> string \<Rightarrow> 'a AllocTable_scheme \<Rightarrow> (error + IP) \<times> 'a AllocTable_scheme" where
  "Allocate pr iprange t =
     (case ParseIPRange iprange of
        Inl err \<Rightarrow> (Inl (ParseError err), t)
      | Inr ipr \<Rightarrow> Allocate_loop pr (rangeAddresses ipr) t)"

text \<open>The same loop in the variant that runs the \<^verbatim>\<open>ping\<close> command.\<close>

fun Allocate_exec_loop ::
  "Probe \<Rightarrow> IP list \<Rightarrow> 'a AllocTable_scheme \<Rightarrow> (error + IP) \<times> 'a AllocTable_scheme" where
  "Allocate_exec_loop pr [] t = (Inl NoAddresses, t)"
| "Allocate_exec_loop pr (ip # rest) t =
     (if allocated t (IP_String ip) \<noteq> None then Allocate_exec_loop pr rest t
      else let t1 = t\<lparr>allocated := (allocated t)(IP_String ip \<mapsto> True),
                        probed := probed t @ [IP_String ip]\<rparr>
           in if Contains (ping_Output pr (IP_String ip)) ''Destination Host Unreachable''
              then (Inr ip, t1)
              else Allocate_exec_loop pr rest t1)"

definition Allocate_exec ::
  "Probe \<Rightarrow> string \<Rightarrow> 'a AllocTable_scheme \<Rightarrow> (error + IP) \<times> 'a AllocTable_scheme" where
  "Allocate_exec pr iprange t =
     (case ParseIPRange iprange of
        Inl err \<Rightarrow> (Inl (ParseError err), t)
      | Inr ipr \<Rightarrow> Allocate_exec_loop pr (rangeAddresses ipr) t)"

text \<open>
  A run of the process makes its \<^verbatim>\<open>Allocate\<close> calls one after the other (all of them
  from the main goroutine); a panic ends the run. The results of the calls, in order.
\<close>

fun Allocate_calls ::
  "Probe \<Rightarrow> string list \<Rightarrow> 'a AllocTable_scheme \<Rightarrow> (error + IP) list \<times> 'a AllocTable_scheme" where
  "Allocate_calls pr [] t = ([], t)"
| "Allocate_calls pr (iprange # ranges) t =
     (case Allocate pr iprange t of
        (Inl Panic, t1) \<Rightarrow> ([Inl Panic], t1)
      | (res, t1) \<Rightarrow> (case Allocate_calls pr ranges t1 of (ress, t2) \<Rightarrow> (res # ress, t2)))"

text \<open>The addresses among a list of results.\<close>

fun returned :: "(error + IP) list \<Rightarrow> IP list" where
  "returned [] = []"
| "returned (Inr ip # rs) = ip # returned rs"
| "returned (Inl e # rs) = returned rs"

text \<open>Concrete collaborators used to exercise the definitions.\<close>

definition probe_none_live :: Probe where
  "probe_none_live = \<lparr>NewPinger_fails = (\<lambda>_. False), PacketsRecv = (\<lambda>_. 0), ping_Output = (\<lambda>_. [])\<rparr>"

definition fresh_table :: AllocTable where
  "fresh_table = \<lparr>allocated = Map.empty, probed = []\<rparr>"

definition probe_two_live :: Probe where
  "probe_two_live =
     \<lparr>NewPinger_fails = (\<lambda>_. False),
      PacketsRecv = (\<lambda>s. if s = ''10.0.0.3'' then 1 else 3),
      ping_Output = (\<lambda>_. [])\<rparr>"

definition probe_all_live :: Probe where
  "probe_all_live = \<lparr>NewPinger_fails = (\<lambda>_. False), PacketsRecv = (\<lambda>_. 3), ping_Output = (\<lambda>_. [])\<rparr>"

definition probe_transport_error :: Probe where
  "probe_transport_error =
     \<lparr>NewPinger_fails = (\<lambda>_. False), PacketsRecv = (\<lambda>_. 0), ping_Output = (\<lambda>_. [])\<rparr>"

definition probe_no_reply :: Probe where
  "probe_no_reply =
     \<lparr>NewPinger_fails = (\<lambda>_. False), PacketsRecv = (\<lambda>_. 0),
      ping_Output = (\<lambda>_. ''2 packets transmitted, 0 received, 100% packet loss'')\<rparr>"

definition probe_no_pinger :: Probe where
  "probe_no_pinger =
     \<lparr>NewPinger_fails = (\<lambda>_. True), PacketsRecv = (\<lambda>_. 0), ping_Output = (\<lambda>_. [])\<rparr>"

section \<open>The forwarding command (services.go)\<close>

text \<open>The parts of the Kubernetes objects that the command reads.\<close>

record ServicePort =
  sp_Port :: "32 word"
  sp_TargetPort :: IntOrString

record Service =
  svc_Name :: string
  svc_Namespace :: string
  svc_ClusterName :: string
  svc_Selector :: "(string \<times> string) list"
  svc_Ports :: "ServicePort list"

record Pod =
  pod_Name :: string
  pod_Namespace :: string
  pod_Containers :: "Container list"

record ClientConfig =
  CurrentContext :: string
  Contexts :: "(string \<times> string) list"

text \<open>
  \<^verbatim>\<open>FwdServiceOpts\<close> without its handles (wait group, client set, hosts file, REST
  configuration): the client set is the one of the context, and the calls through it
  take the context as an argument below.
\<close>

record FwdServiceOpts =
  Context :: string
  Namespace :: string
  ListOptions :: string
  ShortName :: bool
  Remote :: bool
  NetworkInterface :: string
  NetworkRange :: string
  ExitOnFail :: bool

record PortForwardOpts =
  pfo_Context :: string
  pfo_Namespace :: string
  pfo_Service :: string
  pfo_PodName :: string
  pfo_PodPort :: string
  pfo_LocalIP :: IP
  pfo_LocalPort :: string
  pfo_NetworkInterface :: string
  pfo_ShortName :: bool
  pfo_Remote :: bool
  pfo_ExitOnFail :: bool

text \<open>
  The command line: the values of the flags \<^verbatim>\<open>kubeconfig\<close> and \<^verbatim>\<open>selector\<close> and the
  package-level variables bound to the other flags.
\<close>

record Flags =
  kubeconfig :: string
  selector_flag :: string
  namespaces :: "string list"
  contexts :: "string list"
  exitOnFail :: bool
  verbose :: bool
  iface :: string
  networkRange :: string

text \<open>What the process prints and runs, in order.\<close>

datatype event =
    Warning string
  | Print string
  | Fatal string
  | Exec "string list"
  | HostfileSave

text \<open>
  Modelled from the spec: the transport collaborator \<^verbatim>\<open>fwdport.PortForward\<close>, whose
  package is not among the sources. It blocks the session until the tunnel ends and
  then returns an error or none; \<open>Blocks\<close> is a tunnel that never ends.
\<close>

datatype tunnel = Blocks | Ends "string option"

datatype allocator = IcmpLibrary | ExecPing

text \<open>
  The collaborators of a run. An \<open>option\<close> result is the error of the call, \<open>None\<close>
  for success; a sum is the error (\<open>Inl\<close>) or the value. \<open>CheckRoot\<close> is the pair
  returned by \<^verbatim>\<open>utils.CheckRoot\<close>; the cluster calls take the context, the namespace
  and the selector or name; \<open>ip_addr_add\<close> and
  \<open>ip_addr_del\<close> take the address and the interface; \<open>ip_addr_show\<close> takes what
  has happened so far and the interface and gives the output and the error of the
  command. \<open>fwdnet\<close> tells which of the two \<^verbatim>\<open>Allocate\<close> functions is linked.
\<close>

record Env =
  CheckRoot :: "bool \<times> string option"
  NewHostsDefault :: "string + string"
  BackupHostFile :: "string + string"
  GetConfig :: "string \<Rightarrow> string + ClientConfig"
  GetRestConfig :: "string \<Rightarrow> string \<Rightarrow> string option"
  NewForConfig :: "string \<Rightarrow> string option"
  Services_List :: "string \<Rightarrow> string \<Rightarrow> string \<Rightarrow> string + Service list"
  Pods_List :: "string \<Rightarrow> string \<Rightarrow> string \<Rightarrow> string + Pod list"
  Pods_Get :: "string \<Rightarrow> string \<Rightarrow> string \<Rightarrow> string option"
  fwdnet :: allocator
  probes :: Probe
  ip_addr_add :: "string \<Rightarrow> string \<Rightarrow> string option"
  ip_addr_show :: "event list \<Rightarrow> string \<Rightarrow> string \<times> string option"
  ip_addr_del :: "string \<Rightarrow> string \<Rightarrow> string option"
  PortForward :: "PortForwardOpts \<Rightarrow> tunnel"
  Hostfile_Save :: "string option"

text \<open>
  The state that \<^verbatim>\<open>fwdServices\<close> works on: the allocation table of package fwdnet,
  the output so far, the sessions started (one goroutine each, in the order of their
  \<^verbatim>\<open>go\<close> statements) and the counter of the wait group.
\<close>

record State =
  table :: AllocTable
  log :: "event list"
  spawned :: "PortForwardOpts list"
  wg :: int

text \<open>How the process can end inside \<^verbatim>\<open>fwdServices\<close>: \<^verbatim>\<open>os.Exit\<close> or a panic.\<close>

datatype halt = OsExit nat | Panicking

text \<open>\<^verbatim>\<open>err.Error()\<close> for the errors of the allocator.\<close>

definition Error :: "error \<Rightarrow> string" where
  "Error e = (case e of ParseError s \<Rightarrow> s | NoAddresses \<Rightarrow> ''No IP addresses available''
                | Panic \<Rightarrow> ''panic'')"

definition fwdnet_Allocate :: "Env \<Rightarrow> string \<Rightarrow> AllocTable \<Rightarrow> (error + IP) \<times> AllocTable" where
  "fwdnet_Allocate env iprange t =
     (case fwdnet env of
        IcmpLibrary \<Rightarrow> Allocate (probes env) iprange t
      | ExecPing \<Rightarrow> Allocate_exec (probes env) iprange t)"

text \<open>
  One more line of output (or command run). The messages are those of the source
  without their final newline; the pictograph of the DNS line is left out.
\<close>

definition say :: "event \<Rightarrow> State \<Rightarrow> State" where
  "say e s = s\<lparr>log := log s @ [e]\<rparr>"

text \<open>
  The loop over the ports of a service (lines 295 to 370), for the first pod \<open>pod\<close>
  and the address \<open>localIP\<close> of the service. A failing \<^verbatim>\<open>Get\<close> of the pod leaves
  the loop (\<^verbatim>\<open>break\<close>).
\<close>

fun fwdPorts ::
  "Env \<Rightarrow> Flags \<Rightarrow> FwdServiceOpts \<Rightarrow> Service \<Rightarrow> Pod \<Rightarrow> IP \<Rightarrow> ServicePort list \<Rightarrow> State \<Rightarrow> State" where
  "fwdPorts env fl opts svc pod localIP [] s = s"
| "fwdPorts env fl opts svc pod localIP (port # ports) s =
     (let podName = pod_Name pod;
          podNamespace = pod_Namespace pod;
          podPort = resolvePodPort (sp_TargetPort port) (pod_Containers pod);
          localPort = Itoa (sint (sp_Port port))
      in case Pods_Get env (Context opts) podNamespace podName of
           Some err \<Rightarrow> say (Warning (''Error getting pod: '' @ err)) s
         | None \<Rightarrow>
             let full = (if Remote opts then ''.'' @ podNamespace @ ''.svc.cluster.'' @ Context opts
                         else if \<not> ShortName opts then ''.'' @ podNamespace @ ''.svc.cluster.local''
                         else []);
                 s1 = (if verbose fl
                       then say (Print (''Resolving: '' @ svc_Name svc @ full @ '' to '' @
                                        IP_String localIP)) s
                       else s);
                 s2 = say (Print (''Forwarding: '' @ svc_Name svc @ full @ '':'' @
                                  Itoa (sint (sp_Port port)) @ '' to pod '' @ podName @ '':'' @
                                  podPort)) s1;
                 pfo = \<lparr>pfo_Context = Context opts, pfo_Namespace = podNamespace,
                        pfo_Service = svc_Name svc, pfo_PodName = podName, pfo_PodPort = podPort,
                        pfo_LocalIP = localIP, pfo_LocalPort = localPort,
                        pfo_NetworkInterface = NetworkInterface opts,
                        pfo_ShortName = ShortName opts, pfo_Remote = Remote opts,
                        pfo_ExitOnFail = exitOnFail fl\<rparr>
             in fwdPorts env fl opts svc pod localIP ports
                  (s2\<lparr>wg := wg s2 + 1, spawned := spawned s2 @ [pfo]\<rparr>))"

text \<open>The warning of line 263.\<close>

definition noBackingPods :: "Service \<Rightarrow> event" where
  "noBackingPods svc =
     Warning (''No backing pods for service '' @ svc_Name svc @ '' in '' @ svc_Namespace svc @
              '' on cluster '' @ svc_ClusterName svc @ ''.'')"

text \<open>
  The loop over the services (lines 259 to 371). \<open>Inl\<close> is the end of the process
  inside the loop (\<^verbatim>\<open>os.Exit(1)\<close>, or the panic of the allocator), \<open>Inr\<close> the error
  that \<^verbatim>\<open>fwdServices\<close> returns.
\<close>

fun fwdServices_loop ::
  "Env \<Rightarrow> Flags \<Rightarrow> FwdServiceOpts \<Rightarrow> Service list \<Rightarrow> State \<Rightarrow> (halt + string option) \<times> State" where
  "fwdServices_loop env fl opts [] s = (Inr None, s)"
| "fwdServices_loop env fl opts (svc # svcs) s =
     (let selector = mapToSelectorStr (svc_Selector svc)
      in if selector = []
         then fwdServices_loop env fl opts svcs
                (say (noBackingPods svc) s)
         else case Pods_List env (Context opts) (svc_Namespace svc) selector of
                Inl err \<Rightarrow>
                  fwdServices_loop env fl opts svcs
                    (say (Warning (''No pods found for '' @ selector @ '': '' @ err)) s)
              | Inr pods \<Rightarrow>
                  if length pods < 1
                  then fwdServices_loop env fl opts svcs
                         (say (Warning (''No pods returned for service '' @ svc_Name svc @ '' in '' @
                                        svc_Namespace svc @ '' on cluster '' @ svc_ClusterName svc @
                                        ''.'')) s)
                  else case fwdnet_Allocate env (NetworkRange opts) (table s) of
                         (Inl Panic, t1) \<Rightarrow> (Inl Panicking, s\<lparr>table := t1\<rparr>)
                       | (Inl err, t1) \<Rightarrow>
                           fwdServices_loop env fl opts svcs
                             (say (Warning (''Error getting IP address: '' @ Error err))
                                (s\<lparr>table := t1\<rparr>))
                       | (Inr localIP, t1) \<Rightarrow>
                           let s1 = say (Exec [''ip'', ''addr'', ''add'', IP_String localIP, ''dev'',
                                               NetworkInterface opts]) (s\<lparr>table := t1\<rparr>)
                           in case ip_addr_add env (IP_String localIP) (NetworkInterface opts) of
                                Some err \<Rightarrow>
                                  (Inl (OsExit 1),
                                   say (Print (''Cannot ifconfig '' @ NetworkInterface opts @
                                               '' alias '' @ IP_String localIP @ '' up: '' @ err)) s1)
                              | None \<Rightarrow>
                                  fwdServices_loop env fl opts svcs
                                    (fwdPorts env fl opts svc (hd pods) localIP (svc_Ports svc)
                                       (say (Print (''DNS: '' @ svc_Name svc @ ''.'' @
                                                    svc_Namespace svc @ ''.'' @ IP_String localIP @
                                                    ''.xip.io'')) s1)))"

definition fwdServices :: "Env \<Rightarrow> Flags \<Rightarrow> FwdServiceOpts \<Rightarrow> State \<Rightarrow> (halt + string option) \<times> State" where
  "fwdServices env fl opts s =
     (case Services_List env (Context opts) (Namespace opts) (ListOptions opts) of
        Inl err \<Rightarrow> (Inr (Some err), s)
      | Inr items \<Rightarrow> fwdServices_loop env fl opts items s)"

text \<open>
  \<^verbatim>\<open>deleteIP\<close>: list the addresses of the interface and delete the alias if the
  listing mentions the address.
\<close>

definition deleteIP :: "Env \<Rightarrow> IP \<Rightarrow> string \<Rightarrow> State \<Rightarrow> State" where
  "deleteIP env ip ifc s =
     (let s1 = say (Exec [''ip'', ''addr'', ''show'', ifc]) s;
          shown = ip_addr_show env (log s) ifc;
          s2 = (case snd shown of
                  Some err \<Rightarrow> say (Print (''Error listing '' @ ifc @ '' IP addresses: '' @ err)) s1
                | None \<Rightarrow> s1)
      in if Contains (fst shown) (IP_String ip)
         then let s3 = say (Exec [''ip'', ''addr'', ''del'', IP_String ip, ''dev'', ifc]) s2
              in (case ip_addr_del env (IP_String ip) ifc of
                    Some err \<Rightarrow> say (Print (''Cannot ifconfig '' @ ifc @ '' alias '' @
                                             IP_String ip @ '' down: '' @ err)) s3
                  | None \<Rightarrow> s3)
         else s2)"

text \<open>
  The body of a session's goroutine from the return of \<^verbatim>\<open>PortForward\<close> on (lines 361
  to 368): the error if any, the message, \<^verbatim>\<open>deleteIP\<close>, \<^verbatim>\<open>Wg.Done()\<close>. The address and
  the interface captured by the closure are those stored in the session's options.
\<close>

definition sessionTeardown :: "Env \<Rightarrow> PortForwardOpts \<Rightarrow> string option \<Rightarrow> State \<Rightarrow> State" where
  "sessionTeardown env pfo err s =
     (let s1 = (case err of Some e \<Rightarrow> say (Print (''ERROR: '' @ e)) s | None \<Rightarrow> s);
          s2 = say (Print (''Stopped forwarding '' @ pfo_Service pfo @ '' in '' @
                           pfo_Namespace pfo @ ''.'')) s1;
          s3 = deleteIP env (pfo_LocalIP pfo) (pfo_NetworkInterface pfo) s2
      in s3\<lparr>wg := wg s3 - 1\<rparr>)"

text \<open>
  The command's \<^verbatim>\<open>Run\<close> function and the goroutines of the sessions, as a machine
  that takes one step at a time. The main goroutine is at the start, in the loop over
  the contexts (index and contexts left), in the loop over the namespaces (indices,
  context, namespaces and contexts left), at \<^verbatim>\<open>wg.Wait()\<close>, at \<^verbatim>\<open>hostFile.Save()\<close>, or
  the process is over: ended by \<^verbatim>\<open>os.Exit\<close>, \<^verbatim>\<open>log.Fatalf\<close> or a panic, or \<^verbatim>\<open>Run\<close>
  has returned.
\<close>

datatype pc =
    AtStart
  | InContexts nat "string list"
  | InNamespaces nat string nat "string list" "string list"
  | AtWait
  | AtSave
  | Exited halt
  | Returned

text \<open>
  \<open>ended\<close> lists the sessions (by their position in \<open>spawned\<close>) whose goroutine has
  run to its end, \<open>saves\<close> counts the calls of \<^verbatim>\<open>hostFile.Save()\<close>.
\<close>

record Proc =
  st :: State
  pc :: pc
  namespaces_now :: "string list"
  ended :: "nat list"
  saves :: nat

definition fatal :: "string \<Rightarrow> Proc \<Rightarrow> Proc" where
  "fatal msg p = p\<lparr>st := say (Fatal msg) (st p), pc := Exited (OsExit 1)\<rparr>"

text \<open>
  Lines 162 to 170: the namespace of the first context of the configuration that has
  the name \<open>x\<close> and a namespace.
\<close>

fun contextNamespace :: "string \<Rightarrow> (string \<times> string) list \<Rightarrow> (string \<times> string) option" where
  "contextNamespace x [] = None"
| "contextNamespace x ((name, ns) # ctxs) =
     (if name = x \<and> ns \<noteq> [] then Some (name, ns) else contextNamespace x ctxs)"

text \<open>
  The notice of lines 98 to 108, with its line breaks, and the hint of line 116, with
  its quotation marks.
\<close>

definition rootNotice :: string where
  "rootNotice =
     [CHR 0x0A] @ ''This program requires superuser privileges to run. These'' @
     [CHR 0x0A] @ ''privileges are required to add IP address aliases to your'' @
     [CHR 0x0A] @ ''loopback interface. Superuser privileges are also needed'' @
     [CHR 0x0A] @ ''to listen on low port numbers for these IP addresses.'' @
     [CHR 0x0A, CHR 0x0A] @ ''Try:'' @
     [CHR 0x0A] @ '' - sudo -E kubefwd services (Unix)'' @
     [CHR 0x0A] @ '' - Running a shell with administrator rights (Windows)'' @
     [CHR 0x0A, CHR 0x0A]"

definition hostsHint :: string where
  "hostsHint = [CHR 0x27] @ ''cat /etc/hosts'' @ [CHR 0x27] @ '' to see all host entries.''"

text \<open>Lines 96 to 178 of \<^verbatim>\<open>Run\<close>, up to the loop over the contexts.\<close>

definition runStart :: "Env \<Rightarrow> Flags \<Rightarrow> Proc \<Rightarrow> Proc" where
  "runStart env fl p =
     (if \<not> fst (CheckRoot env)
      then let p1 = p\<lparr>st := say (Print rootNotice) (st p)\<rparr>
           in (case snd (CheckRoot env) of
                 Some err \<Rightarrow> fatal (''Root check failure: '' @ err) p1
               | None \<Rightarrow> p1\<lparr>pc := Returned\<rparr>)
      else let p1 = p\<lparr>st := say (Print hostsHint)
                               (say (Print ''Press [Ctrl-C] to stop forwarding.'') (st p))\<rparr>
           in case NewHostsDefault env of
                Inl err \<Rightarrow> fatal (''Hostfile error: '' @ err) p1
              | Inr path \<Rightarrow>
                  let p2 = p1\<lparr>st := say (Print (''Loaded hosts file '' @ path)) (st p1)\<rparr>
                  in case BackupHostFile env of
                       Inl err \<Rightarrow> fatal (''Error backing up hostfile: '' @ err) p2
                     | Inr msg \<Rightarrow>
                         let p3 = p2\<lparr>st := say (Print (''Hostfile management: '' @ msg)) (st p2)\<rparr>
                         in if kubeconfig fl = []
                            then fatal ''No config found. Use --kubeconfig to specify one'' p3
                            else case GetConfig env (kubeconfig fl) of
                                   Inl err \<Rightarrow>
                                     fatal (''Error reading configuration configuration: '' @ err) p3
                                 | Inr clientConfig \<Rightarrow>
                                     let p4 =
                                           (if length (namespaces fl) < 1
                                            then case contextNamespace
                                                        (if length (contexts fl) > 0 then hd (contexts fl)
                                                         else CurrentContext clientConfig)
                                                        (Contexts clientConfig) of
                                                   Some (name, ns) \<Rightarrow>
                                                     p3\<lparr>st := say (Print (''Using namespace '' @ ns @
                                                                     '' from current context '' @ name @
                                                                     ''.'')) (st p3),
                                                        namespaces_now := [ns]\<rparr>
                                                 | None \<Rightarrow> p3\<lparr>namespaces_now := [''default'']\<rparr>
                                            else p3\<lparr>namespaces_now := namespaces fl\<rparr>)
                                     in p4\<lparr>pc := InContexts 0
                                                   (if length (contexts fl) < 1
                                                    then contexts fl @ [CurrentContext clientConfig]
                                                    else contexts fl)\<rparr>)"

text \<open>One step of the main goroutine. At \<^verbatim>\<open>wg.Wait()\<close> it can move only when the counter is 0.\<close>

definition mainStep :: "Env \<Rightarrow> Flags \<Rightarrow> Proc \<Rightarrow> Proc" where
  "mainStep env fl p =
     (case pc p of
        AtStart \<Rightarrow> runStart env fl p
      | InContexts i [] \<Rightarrow> p\<lparr>pc := AtWait\<rparr>
      | InContexts i (ctx # ctxs) \<Rightarrow>
          (case GetRestConfig env (kubeconfig fl) ctx of
             Some err \<Rightarrow> fatal (''Error generating REST configuration: '' @ err) p
           | None \<Rightarrow>
               (case NewForConfig env ctx of
                  Some err \<Rightarrow> fatal (''Error creating k8s client: '' @ err) p
                | None \<Rightarrow> p\<lparr>pc := InNamespaces i ctx 0 (namespaces_now p) ctxs\<rparr>))
      | InNamespaces i ctx ii [] ctxs \<Rightarrow> p\<lparr>pc := InContexts (i + 1) ctxs\<rparr>
      | InNamespaces i ctx ii (namespace # nss) ctxs \<Rightarrow>
          (case fwdServices env fl
                  \<lparr>Context = ctx, Namespace = namespace, ListOptions = selector_flag fl,
                   ShortName = (i < 1 \<and> ii < 1), Remote = (i > 0),
                   NetworkInterface = iface fl, NetworkRange = networkRange fl,
                   ExitOnFail = exitOnFail fl\<rparr> (st p) of
             (Inl h, s1) \<Rightarrow> p\<lparr>st := s1, pc := Exited h\<rparr>
           | (Inr None, s1) \<Rightarrow> p\<lparr>st := s1, pc := InNamespaces i ctx (ii + 1) nss ctxs\<rparr>
           | (Inr (Some err), s1) \<Rightarrow>
               p\<lparr>st := say (Print (''Error forwarding service: '' @ err)) s1,
                 pc := InNamespaces i ctx (ii + 1) nss ctxs\<rparr>)
      | AtWait \<Rightarrow>
          if wg (st p) = 0 then p\<lparr>st := say (Print ''Done...'') (st p), pc := AtSave\<rparr> else p
      | AtSave \<Rightarrow>
          (let p1 = p\<lparr>st := say HostfileSave (st p), saves := saves p + 1\<rparr>
           in case Hostfile_Save env of
                Some err \<Rightarrow> fatal (''Error saving hostfile: '' @ err) p1
              | None \<Rightarrow> p1\<lparr>pc := Returned\<rparr>)
      | Exited h \<Rightarrow> p
      | Returned \<Rightarrow> p)"

definition over :: "pc \<Rightarrow> bool" where
  "over c = (case c of Exited h \<Rightarrow> True | Returned \<Rightarrow> True | _ \<Rightarrow> False)"

text \<open>
  The end of session \<open>i\<close>: possible while the process lives, once, and only if the
  tunnel of the session ends.
\<close>

definition sessionEnd :: "Env \<Rightarrow> nat \<Rightarrow> Proc \<Rightarrow> Proc" where
  "sessionEnd env i p =
     (if over (pc p) \<or> \<not> i < length (spawned (st p)) \<or> i \<in> set (ended p) then p
      else case PortForward env (spawned (st p) ! i) of
             Blocks \<Rightarrow> p
           | Ends err \<Rightarrow>
               p\<lparr>st := sessionTeardown env (spawned (st p) ! i) err (st p), ended := i # ended p\<rparr>)"

text \<open>
  A run is driven by a schedule: which goroutine takes the next step. A step that is
  not possible leaves everything as it is. A step of the main goroutine is the part of
  \<^verbatim>\<open>Run\<close> before the loops, the set-up for a context, or one call of \<^verbatim>\<open>fwdServices\<close>;
  the session goroutines take their steps in between. The collaborators answer by their
  arguments, so what the main goroutine does is the same under every interleaving; only
  the listing of the interface depends on what has happened before.
\<close>

datatype action = MainThread | SessionEnd nat

fun step :: "Env \<Rightarrow> Flags \<Rightarrow> action \<Rightarrow> Proc \<Rightarrow> Proc" where
  "step env fl MainThread p = mainStep env fl p"
| "step env fl (SessionEnd i) p = sessionEnd env i p"

fun exec :: "Env \<Rightarrow> Flags \<Rightarrow> action list \<Rightarrow> Proc \<Rightarrow> Proc" where
  "exec env fl [] p = p"
| "exec env fl (a # sched) p = exec env fl sched (step env fl a p)"

definition initial :: Proc where
  "initial =
     \<lparr>st = \<lparr>table = \<lparr>allocated = Map.empty, probed = []\<rparr>, log = [], spawned = [], wg = 0\<rparr>,
      pc = AtStart, namespaces_now = [], ended = [], saves = 0\<rparr>"

definition run :: "Env \<Rightarrow> Flags \<Rightarrow> action list \<Rightarrow> Proc" where
  "run env fl sched = exec env fl sched initial"

text \<open>The sessions whose goroutine has been started and has not run to its end.\<close>

definition activeSessions :: "Proc \<Rightarrow> PortForwardOpts list" where
  "activeSessions p =
     map (\<lambda>i. spawned (st p) ! i) (filter (\<lambda>i. i \<notin> set (ended p)) [0 ..< length (spawned (st p))])"

text \<open>Two sessions that differ at most in their ports.\<close>

definition sameService :: "PortForwardOpts \<Rightarrow> PortForwardOpts \<Rightarrow> bool" where
  "sameService a b =
     (a\<lparr>pfo_PodPort := [], pfo_LocalPort := []\<rparr> = b\<lparr>pfo_PodPort := [], pfo_LocalPort := []\<rparr>)"

text \<open>
  Modelled from the spec: the exit code of the process, which the program's
  \<^verbatim>\<open>main\<close> (not among the sources) and the Go runtime decide: 0 when the command
  returns, the argument of \<^verbatim>\<open>os.Exit\<close> (1 for \<^verbatim>\<open>log.Fatalf\<close>), 2 for a panic. A process
  that is still running has none.
\<close>

definition exitCode :: "pc \<Rightarrow> nat option" where
  "exitCode c =
     (case c of Returned \<Rightarrow> Some 0 | Exited (OsExit n) \<Rightarrow> Some n | Exited Panicking \<Rightarrow> Some 2
      | _ \<Rightarrow> None)"

text \<open>
  Two invariants of a run. The first: every session's address is claimed in the
  allocation table, and sessions with the same address differ at most in their ports.
  The second relates the counter of the wait group, the sessions started and ended, the
  position of the main goroutine and the calls of \<^verbatim>\<open>hostFile.Save()\<close>.
\<close>

definition addressOwners :: "State \<Rightarrow> bool" where
  "addressOwners s =
     ((\<forall>a \<in> set (spawned s). allocated (table s) (IP_String (pfo_LocalIP a)) = Some True) \<and>
      (\<forall>a \<in> set (spawned s). \<forall>b \<in> set (spawned s).
          IP_String (pfo_LocalIP a) = IP_String (pfo_LocalIP b) \<longrightarrow> sameService a b))"

definition barrier :: "Env \<Rightarrow> Proc \<Rightarrow> bool" where
  "barrier env p =
     (wg (st p) = int (length (spawned (st p))) - int (length (ended p)) \<and>
      distinct (ended p) \<and> set (ended p) \<subseteq> {..< length (spawned (st p))} \<and>
      saves p \<le> 1 \<and>
      (pc p = AtSave \<longrightarrow> wg (st p) = 0) \<and>
      (saves p = 1 \<longrightarrow> over (pc p) \<and> wg (st p) = 0) \<and>
      (\<not> over (pc p) \<longrightarrow> saves p = 0) \<and>
      (pc p = Returned \<longrightarrow> saves p = 1 \<or> \<not> fst (CheckRoot env)))"

text \<open>The address of a session as a string.\<close>

definition sessionAddress :: "PortForwardOpts \<Rightarrow> string" where
  "sessionAddress a = IP_String (pfo_LocalIP a)"


text \<open>A small cluster, its variations and two schedules, to exercise the definitions.\<close>

definition svc_web :: Service where
  "svc_web =
     \<lparr>svc_Name = ''web'', svc_Namespace = ''default'', svc_ClusterName = [],
      svc_Selector = [(''app'', ''foo'')],
      svc_Ports = [\<lparr>sp_Port = 80, sp_TargetPort = StrVal ''http''\<rparr>,
                   \<lparr>sp_Port = 9090, sp_TargetPort = IntVal 9090\<rparr>]\<rparr>"

definition svc_headless :: Service where
  "svc_headless =
     \<lparr>svc_Name = ''db'', svc_Namespace = ''default'', svc_ClusterName = [],
      svc_Selector = [], svc_Ports = [\<lparr>sp_Port = 5432, sp_TargetPort = IntVal 5432\<rparr>]\<rparr>"

definition pod_web :: Pod where
  "pod_web =
     \<lparr>pod_Name = ''web-1'', pod_Namespace = ''default'',
      pod_Containers = [\<lparr>c_Ports = [\<lparr>cp_Name = ''http'', cp_ContainerPort = 8080\<rparr>]\<rparr>]\<rparr>"

definition env_ok :: Env where
  "env_ok =
     \<lparr>CheckRoot = (True, None),
      NewHostsDefault = Inr ''/etc/hosts'',
      BackupHostFile = Inr ''Original hosts backup already exists'',
      GetConfig = (\<lambda>_. Inr \<lparr>CurrentContext = ''minikube'', Contexts = [(''minikube'', [])]\<rparr>),
      GetRestConfig = (\<lambda>_ _. None),
      NewForConfig = (\<lambda>_. None),
      Services_List = (\<lambda>_ _ _. Inr [svc_headless, svc_web]),
      Pods_List = (\<lambda>_ _ _. Inr [pod_web]),
      Pods_Get = (\<lambda>_ _ _. None),
      fwdnet = IcmpLibrary,
      probes = probe_none_live,
      ip_addr_add = (\<lambda>_ _. None),
      ip_addr_show = (\<lambda>_ _. ([], None)),
      ip_addr_del = (\<lambda>_ _. None),
      PortForward = (\<lambda>_. Blocks),
      Hostfile_Save = None\<rparr>"

definition flags0 :: Flags where
  "flags0 =
     \<lparr>kubeconfig = ''/root/.kube/config'', selector_flag = [], namespaces = [], contexts = [],
      exitOnFail = False, verbose = False, iface = ''lo'', networkRange = ''10.0.0.1-3''\<rparr>"

definition forwarding :: "action list" where
  "forwarding = [MainThread, MainThread, MainThread]"

definition env_not_root :: Env where
  "env_not_root = env_ok\<lparr>CheckRoot := (False, None)\<rparr>"

definition env_root_error :: Env where
  "env_root_error = env_ok\<lparr>CheckRoot := (False, Some ''exit status 1'')\<rparr>"

definition env_bind_fails :: Env where
  "env_bind_fails = env_ok\<lparr>ip_addr_add := (\<lambda>_ _. Some ''exit status 2'')\<rparr>"

definition env_tunnels_end :: Env where
  "env_tunnels_end = env_ok\<lparr>PortForward := (\<lambda>_. Ends None)\<rparr>"

definition complete_run :: "action list" where
  "complete_run =
     [MainThread, MainThread, MainThread, MainThread, MainThread, SessionEnd 0, SessionEnd 1,
      MainThread, MainThread]"

definition opts0 :: FwdServiceOpts where
  "opts0 =
     \<lparr>Context = ''minikube'', Namespace = ''default'', ListOptions = [], ShortName = True,
      Remote = False, NetworkInterface = ''lo'', NetworkRange = ''10.0.0.1-3'', ExitOnFail = False\<rparr>"

section \<open>Properties\<close>

subsection \<open>Decimal strings\<close>

lemma less_10_cases:
  "d < 10 \<Longrightarrow> d = 0 \<or> d = 1 \<or> d = 2 \<or> d = 3 \<or> d = 4 \<or> d = 5 \<or> d = 6 \<or> d = 7 \<or> d = 8 \<or> d = (9::nat)"
  by arith

lemma digitChar_isDigit: "d < 10 \<Longrightarrow> isDigit (digitChar d)"
  by (drule less_10_cases) (auto simp: isDigit_def digitChar_def)

lemma digitVal_digitChar: "d < 10 \<Longrightarrow> digitVal (digitChar d) = d"
  by (drule less_10_cases) (auto simp: digitVal_def digitChar_def)

lemma natString_digits: "list_all isDigit (natString n)"
proof (induction n rule: natString.induct)
  case (1 n)
  show ?case
  proof (cases "n < 10")
    case True
    then show ?thesis by (simp add: natString.simps [of n] digitChar_isDigit)
  next
    case False
    then show ?thesis using "1.IH" by (simp add: natString.simps [of n] digitChar_isDigit)
  qed
qed

lemma natString_nonempty: "natString n \<noteq> []"
  by (simp add: natString.simps [of n])

lemma digitsVal_append: "digitsVal acc (xs @ [c]) = digitsVal acc xs * 10 + digitVal c"
  by (induction xs arbitrary: acc) simp_all

lemma digitsVal_natString: "digitsVal 0 (natString n) = n"
proof (induction n rule: natString.induct)
  case (1 n)
  show ?case
  proof (cases "n < 10")
    case True
    then show ?thesis by (simp add: natString.simps [of n] digitVal_digitChar)
  next
    case False
    then have "digitsVal 0 (natString n) = digitsVal 0 (natString (n div 10)) * 10 + n mod 10"
      by (simp add: natString.simps [of n] digitsVal_append digitVal_digitChar)
    then show ?thesis using "1.IH" False by simp
  qed
qed

lemma isDigit_not_sign: "isDigit c \<Longrightarrow> c \<noteq> CHR ''-'' \<and> c \<noteq> CHR ''+''"
  by (auto simp: isDigit_def)

lemma hd_natString_not_sign: "hd (natString n) \<noteq> CHR ''-'' \<and> hd (natString n) \<noteq> CHR ''+''"
proof -
  have "isDigit (hd (natString n))"
    using natString_digits [of n] natString_nonempty [of n]
    by (cases "natString n") simp_all
  then show ?thesis by (rule isDigit_not_sign)
qed

lemma Atoi_Itoa: "- (2 ^ 63) \<le> i \<Longrightarrow> i \<le> 2 ^ 63 - 1 \<Longrightarrow> Atoi (Itoa i) = Some i"
proof (cases "i < 0")
  case True
  assume "- (2 ^ 63) \<le> i" "i \<le> 2 ^ 63 - 1"
  with True show ?thesis
    by (simp add: Atoi_def Itoa_def natString_nonempty natString_digits digitsVal_natString)
next
  case False
  assume "- (2 ^ 63) \<le> i" "i \<le> 2 ^ 63 - 1"
  with False show ?thesis
    using hd_natString_not_sign [of "nat i"]
    by (simp add: Atoi_def Itoa_def natString_nonempty natString_digits digitsVal_natString)
qed

subsection \<open>Selector strings\<close>


lemma mapToSelectorStr_loop_nonempty:
  "selector \<noteq> [] \<Longrightarrow> mapToSelectorStr_loop selector msel \<noteq> []"
proof (induction msel arbitrary: selector)
  case Nil
  then show ?case by simp
next
  case (Cons e msel)
  obtain k v where e: "e = (k, v)" by (cases e)
  have "mapToSelectorStr_loop selector (e # msel)
        = mapToSelectorStr_loop (selector @ '','' @ k @ ''='' @ v) msel"
    using Cons.prems by (simp add: e)
  moreover have "mapToSelectorStr_loop (selector @ '','' @ k @ ''='' @ v) msel \<noteq> []"
    by (rule Cons.IH) simp
  ultimately show ?case by simp
qed

lemma mapToSelectorStr_loop_joined:
  "selector \<noteq> [] \<Longrightarrow>
   mapToSelectorStr_loop selector msel = commaJoined (selector # map selectorPair msel)"
proof (induction msel arbitrary: selector)
  case Nil
  then show ?case by simp
next
  case (Cons e msel)
  obtain k v where e: "e = (k, v)" by (cases e)
  have "mapToSelectorStr_loop selector (e # msel)
        = mapToSelectorStr_loop (selector @ '','' @ selectorPair e) msel"
    using Cons.prems by (simp add: e selectorPair_def)
  also have "\<dots> = commaJoined ((selector @ '','' @ selectorPair e) # map selectorPair msel)"
    by (rule Cons.IH) simp
  also have "\<dots> = commaJoined (selector # map selectorPair (e # msel))"
    by (cases msel) simp_all
  finally show ?case .
qed

lemma selectorPair_nonempty: "selectorPair e \<noteq> []"
  by (simp add: selectorPair_def)

text \<open>
  C10. \<^verbatim>\<open>mapToSelectorStr\<close> returns the empty string exactly for the empty map, and
  otherwise the \<open>k=v\<close> pairs of the entries, one per entry in iteration order, separated
  by single commas, with no comma before the first or after the last pair.
\<close>

theorem mapToSelectorStr_joined:
  "(mapToSelectorStr msel = [] \<longleftrightarrow> msel = []) \<and>
   mapToSelectorStr msel = commaJoined (map selectorPair msel)"
proof (cases msel)
  case Nil
  then show ?thesis by (simp add: mapToSelectorStr_def)
next
  case (Cons e rest)
  obtain k v where e: "e = (k, v)" by (cases e)
  have step: "mapToSelectorStr msel = mapToSelectorStr_loop (selectorPair e) rest"
    by (simp add: mapToSelectorStr_def Cons e selectorPair_def)
  have "mapToSelectorStr msel \<noteq> []"
    unfolding step by (rule mapToSelectorStr_loop_nonempty) (rule selectorPair_nonempty)
  moreover have "mapToSelectorStr msel = commaJoined (map selectorPair msel)"
    unfolding step using mapToSelectorStr_loop_joined [OF selectorPair_nonempty, of e rest]
    by (simp add: Cons)
  ultimately show ?thesis by (simp add: Cons)
qed

theorem mapToSelectorStr_joined_witness:
  "mapToSelectorStr [(''app'', ''foo''), (''tier'', ''db'')] = ''app=foo,tier=db'' \<and>
   mapToSelectorStr [] = []"
  using mapToSelectorStr_joined [of "[(''app'', ''foo''), (''tier'', ''db'')]"]
    mapToSelectorStr_joined [of "[]"]
  by (simp add: selectorPair_def)

subsection \<open>Port resolution\<close>

lemma find_app:
  "find P (xs @ ys) = (case find P xs of None \<Rightarrow> find P ys | Some x \<Rightarrow> Some x)"
  by (induction xs) simp_all

lemma portSearch_ports_find:
  "portSearch_ports portName cps =
     map_option (\<lambda>cp. Itoa (sint (cp_ContainerPort cp))) (find (\<lambda>cp. cp_Name cp = portName) cps)"
  by (induction cps) simp_all

lemma portSearch_find:
  "portSearch portName containers =
     (case find (\<lambda>cp. cp_Name cp = portName) (concat (map c_Ports containers)) of
        None \<Rightarrow> ('''', False)
      | Some cp \<Rightarrow> (Itoa (sint (cp_ContainerPort cp)), True))"
proof (induction containers)
  case Nil
  then show ?case by simp
next
  case (Cons c cs)
  show ?case
  proof (cases "find (\<lambda>cp. cp_Name cp = portName) (c_Ports c)")
    case None
    then show ?thesis using Cons.IH by (simp add: portSearch_ports_find find_app)
  next
    case (Some cp)
    then show ?thesis by (simp add: portSearch_ports_find find_app)
  qed
qed

lemma sint32_range: "- (2 ^ 63) \<le> sint (n :: 32 word) \<and> sint n \<le> 2 ^ 63 - 1"
proof -
  have "- (2 ^ 31) \<le> sint n" "sint n < 2 ^ 31"
    using sint_ge [of n] sint_lt [of n] by simp_all
  then show ?thesis by simp
qed

text \<open>
  C5. A service port whose target is a port name (not a number) resolves to the decimal
  container port of the first declaration of that name among the containers of the pod,
  so \<open>http\<close> resolves to \<open>8080\<close> against a declaration \<open>http -> 8080\<close>; a
  numeric target is used unchanged; a name that no container port declares is passed
  through as it is.
\<close>

theorem resolvePodPort_cases:
  "(Atoi name = None \<and>
      find (\<lambda>cp. cp_Name cp = name) (concat (map c_Ports containers)) = Some cp
      \<longrightarrow> resolvePodPort (StrVal name) containers = Itoa (sint (cp_ContainerPort cp))) \<and>
   resolvePodPort (IntVal n) containers = Itoa (sint n) \<and>
   (Atoi s \<noteq> None \<longrightarrow> resolvePodPort (StrVal s) containers = s) \<and>
   (Atoi name = None \<and>
      find (\<lambda>cp. cp_Name cp = name) (concat (map c_Ports containers)) = None
      \<longrightarrow> resolvePodPort (StrVal name) containers = name)"
proof -
  have "Atoi (Itoa (sint n)) = Some (sint n)"
    using sint32_range [of n] by (simp add: Atoi_Itoa)
  then have numeric: "resolvePodPort (IntVal n) containers = Itoa (sint n)"
    by (simp add: resolvePodPort_def)
  have str: "Atoi s \<noteq> None \<longrightarrow> resolvePodPort (StrVal s) containers = s"
    by (auto simp: resolvePodPort_def)
  show ?thesis
    using numeric str by (simp add: resolvePodPort_def portSearch_find)
qed

theorem resolvePodPort_cases_witness:
  "resolvePodPort (StrVal ''http'')
     [\<lparr>c_Ports = [\<lparr>cp_Name = ''http'', cp_ContainerPort = 8080\<rparr>]\<rparr>] = ''8080'' \<and>
   resolvePodPort (IntVal 9090)
     [\<lparr>c_Ports = [\<lparr>cp_Name = ''http'', cp_ContainerPort = 8080\<rparr>]\<rparr>] = ''9090'' \<and>
   resolvePodPort (StrVal ''9090'')
     [\<lparr>c_Ports = [\<lparr>cp_Name = ''http'', cp_ContainerPort = 8080\<rparr>]\<rparr>] = ''9090'' \<and>
   resolvePodPort (StrVal ''metrics'')
     [\<lparr>c_Ports = [\<lparr>cp_Name = ''http'', cp_ContainerPort = 8080\<rparr>]\<rparr>] = ''metrics''"
proof -
  let ?cs = "[\<lparr>c_Ports = [\<lparr>cp_Name = ''http'', cp_ContainerPort = 8080\<rparr>]\<rparr>]"
  have a: "Atoi ''http'' = None" "Atoi ''metrics'' = None" "Atoi ''9090'' \<noteq> None"
    by (simp_all add: Atoi_def isDigit_def digitVal_def)
  have i: "Itoa 8080 = ''8080''" "Itoa 9090 = ''9090''"
    by (simp_all add: Itoa_def natString.simps digitChar_def)
  show ?thesis
    using resolvePodPort_cases [of "''http''" ?cs "\<lparr>cp_Name = ''http'', cp_ContainerPort = 8080\<rparr>" 9090 "''9090''"]
      resolvePodPort_cases [of "''metrics''" ?cs undefined 9090 "''9090''"]
    by (simp add: a i)
qed

subsection \<open>Address strings and ranges\<close>

lemma natString_inj: "natString m = natString n \<Longrightarrow> m = n"
  by (metis digitsVal_natString)

lemma dot_not_digit: "\<not> isDigit CHR ''.''"
  by (simp add: isDigit_def)

lemma digits_dot_unique:
  "list_all isDigit a \<Longrightarrow> list_all isDigit b \<Longrightarrow> a @ CHR ''.'' # r = b @ CHR ''.'' # r' \<Longrightarrow>
   a = b \<and> r = r'"
proof (induction a arbitrary: b)
  case Nil
  then show ?case using dot_not_digit by (cases b) auto
next
  case (Cons x a)
  then show ?case using dot_not_digit by (cases b) auto
qed

lemma div_mod_256_determine:
  "a div 256 = b div 256 \<Longrightarrow> a mod 256 = b mod 256 \<Longrightarrow> a = (b::nat)"
proof -
  assume h: "a div 256 = b div 256" "a mod 256 = b mod 256"
  have "a div 256 * 256 + a mod 256 = b div 256 * 256 + b mod 256"
    by (simp only: h)
  then show "a = b"
    by (simp only: div_mult_mod_eq)
qed

lemma octets_determine:
  "m div 16777216 = n div 16777216 \<Longrightarrow> m div 65536 mod 256 = n div 65536 mod 256 \<Longrightarrow>
   m div 256 mod 256 = n div 256 mod 256 \<Longrightarrow> m mod 256 = n mod 256 \<Longrightarrow> m = (n::nat)"
proof -
  assume h: "m div 16777216 = n div 16777216" "m div 65536 mod 256 = n div 65536 mod 256"
    "m div 256 mod 256 = n div 256 mod 256" "m mod 256 = n mod 256"
  have d2: "a div 65536 = a div 256 div 256" for a :: nat
    using div_mult2_eq [of a 256 256] by simp
  have d3: "a div 16777216 = a div 256 div 256 div 256" for a :: nat
    using div_mult2_eq [of a 65536 256] by (simp add: d2)
  have "m div 256 div 256 div 256 = n div 256 div 256 div 256"
    using h(1) by (simp only: d3)
  moreover have "m div 256 div 256 mod 256 = n div 256 div 256 mod 256"
    using h(2) by (simp only: d2)
  ultimately have "m div 256 div 256 = n div 256 div 256"
    by (rule div_mod_256_determine)
  then have "m div 256 = n div 256"
    using h(3) by (rule div_mod_256_determine)
  then show "m = n"
    using h(4) by (rule div_mod_256_determine)
qed

lemma IP_String_form:
  "IP_String ip =
     natString (unat ip div 16777216) @ CHR ''.'' #
     (natString (unat ip div 65536 mod 256) @ CHR ''.'' #
      (natString (unat ip div 256 mod 256) @ CHR ''.'' # natString (unat ip mod 256)))"
  by (simp add: IP_String_def)

lemma IP_String_inj: "IP_String x = IP_String y \<Longrightarrow> x = y"
proof -
  assume eq: "IP_String x = IP_String y"
  let ?a = "\<lambda>ip::IP. natString (unat ip div 16777216)"
  let ?b = "\<lambda>ip::IP. natString (unat ip div 65536 mod 256)"
  let ?c = "\<lambda>ip::IP. natString (unat ip div 256 mod 256)"
  let ?d = "\<lambda>ip::IP. natString (unat ip mod 256)"
  from eq have e1: "?a x @ CHR ''.'' # (?b x @ CHR ''.'' # (?c x @ CHR ''.'' # ?d x))
                  = ?a y @ CHR ''.'' # (?b y @ CHR ''.'' # (?c y @ CHR ''.'' # ?d y))"
    by (simp only: IP_String_form)
  note u1 = digits_dot_unique [OF natString_digits natString_digits e1]
  from u1 have a: "?a x = ?a y" by (rule conjunct1)
  from u1 have e2: "?b x @ CHR ''.'' # (?c x @ CHR ''.'' # ?d x) = ?b y @ CHR ''.'' # (?c y @ CHR ''.'' # ?d y)"
    by (rule conjunct2)
  note u2 = digits_dot_unique [OF natString_digits natString_digits e2]
  from u2 have b: "?b x = ?b y" by (rule conjunct1)
  from u2 have e3: "?c x @ CHR ''.'' # ?d x = ?c y @ CHR ''.'' # ?d y" by (rule conjunct2)
  note u3 = digits_dot_unique [OF natString_digits natString_digits e3]
  from u3 have c: "?c x = ?c y" by (rule conjunct1)
  from u3 have d: "?d x = ?d y" by (rule conjunct2)
  have "unat x = unat y"
    by (rule octets_determine) (rule natString_inj, fact)+
  then show "x = y" by (rule unsigned_word_eqI)
qed

lemma rangeAddresses_distinct: "distinct (map IP_String (rangeAddresses ipr))"
proof -
  have "inj_on (word_of_nat :: nat \<Rightarrow> IP) {..< 2 ^ 32}"
  proof (rule inj_onI)
    fix m n :: nat
    assume "m \<in> {..< 2 ^ 32}" "n \<in> {..< 2 ^ 32}" and eq: "(word_of_nat m :: IP) = word_of_nat n"
    then have "m < 2 ^ 32" "n < 2 ^ 32" by simp_all
    then have um: "unat (word_of_nat m :: IP) = m" and un: "unat (word_of_nat n :: IP) = n"
      by (simp_all add: unat_of_nat)
    have "m = unat (word_of_nat m :: IP)" by (simp only: um)
    also have "\<dots> = unat (word_of_nat n :: IP)" by (simp only: eq)
    also have "\<dots> = n" by (rule un)
    finally show "m = n" .
  qed
  moreover have "set [unat (Start ipr) ..< Suc (unat (End ipr))] \<subseteq> {..< 2 ^ 32}"
    using unsigned_less [of "End ipr", where ?'a = nat] by auto
  ultimately have "inj_on (word_of_nat :: nat \<Rightarrow> IP) (set [unat (Start ipr) ..< Suc (unat (End ipr))])"
    by (rule inj_on_subset)
  then have "distinct (rangeAddresses ipr)"
    by (simp add: rangeAddresses_def distinct_map)
  moreover have "inj_on IP_String (set (rangeAddresses ipr))"
    by (rule inj_onI) (rule IP_String_inj)
  ultimately show ?thesis by (simp add: distinct_map)
qed

lemma rangeAddresses_length: "length (rangeAddresses ipr) = Suc (unat (End ipr)) - unat (Start ipr)"
  by (simp add: rangeAddresses_def Suc_diff_le)

subsection \<open>The allocators\<close>

lemma Allocate_loop_keeps:
  "allocated t s \<noteq> None \<Longrightarrow> allocated (snd (Allocate_loop pr cands t)) s = allocated t s"
proof (induction cands arbitrary: t)
  case Nil
  then show ?case by simp
next
  case (Cons ip rest)
  show ?case
  proof (cases "allocated t (IP_String ip) \<noteq> None")
    case True
    then show ?thesis using Cons by simp
  next
    case False
    with Cons.prems have ne: "s \<noteq> IP_String ip" by auto
    let ?t1 = "t\<lparr>allocated := (allocated t)(IP_String ip \<mapsto> True)\<rparr>"
    let ?t2 = "?t1\<lparr>probed := probed ?t1 @ [IP_String ip]\<rparr>"
    have "allocated ?t2 s \<noteq> None" using Cons.prems ne by simp
    from Cons.IH [OF this] have "allocated (snd (Allocate_loop pr rest ?t2)) s = allocated t s"
      using ne by simp
    then show ?thesis using False ne by (simp add: Let_def)
  qed
qed

lemma Allocate_loop_Inr:
  "Allocate_loop pr cands t = (Inr ip, t') \<Longrightarrow>
   ip \<in> set cands \<and> allocated t (IP_String ip) = None \<and> allocated t' (IP_String ip) = Some True \<and>
   PacketsRecv pr (IP_String ip) \<noteq> 3 \<and> \<not> NewPinger_fails pr (IP_String ip)"
proof (induction cands arbitrary: t)
  case Nil
  then show ?case by simp
next
  case (Cons c rest)
  show ?case
  proof (cases "allocated t (IP_String c) \<noteq> None")
    case True
    with Cons.prems have "Allocate_loop pr rest t = (Inr ip, t')" by simp
    from Cons.IH [OF this] show ?thesis by simp
  next
    case False
    let ?t1 = "t\<lparr>allocated := (allocated t)(IP_String c \<mapsto> True)\<rparr>"
    let ?t2 = "?t1\<lparr>probed := probed ?t1 @ [IP_String c]\<rparr>"
    from Cons.prems False have nf: "\<not> NewPinger_fails pr (IP_String c)"
      by (auto simp: Let_def split: if_splits)
    show ?thesis
    proof (cases "PacketsRecv pr (IP_String c) = 3")
      case True
      with Cons.prems False nf have "Allocate_loop pr rest ?t2 = (Inr ip, t')"
        by (simp add: Let_def)
      from Cons.IH [OF this] show ?thesis
        by (auto split: if_splits)
    next
      case False2: False
      with Cons.prems False nf have "ip = c" "t' = ?t2"
        by (auto simp: Let_def)
      then show ?thesis using False False2 nf by simp
    qed
  qed
qed

lemma Allocate_keeps:
  "allocated t s \<noteq> None \<Longrightarrow> allocated (snd (Allocate pr iprange t)) s = allocated t s"
  by (cases "ParseIPRange iprange") (simp_all add: Allocate_def Allocate_loop_keeps)

lemma Allocate_Inr:
  "Allocate pr iprange t = (Inr ip, t') \<Longrightarrow>
   allocated t (IP_String ip) = None \<and> allocated t' (IP_String ip) = Some True \<and>
   PacketsRecv pr (IP_String ip) \<noteq> 3 \<and> \<not> NewPinger_fails pr (IP_String ip)"
  by (cases "ParseIPRange iprange") (auto simp: Allocate_def dest: Allocate_loop_Inr)

lemma Allocate_calls_keeps:
  "allocated t s \<noteq> None \<Longrightarrow> allocated (snd (Allocate_calls pr ranges t)) s = allocated t s"
proof (induction ranges arbitrary: t)
  case Nil
  then show ?case by simp
next
  case (Cons r rs)
  obtain res t1 where a: "Allocate pr r t = (res, t1)" by (cases "Allocate pr r t")
  have k1: "allocated t1 s = allocated t s"
    using Allocate_keeps [OF Cons.prems, of pr r] a by simp
  then have "allocated t1 s \<noteq> None" using Cons.prems by simp
  from Cons.IH [OF this] have k2: "allocated (snd (Allocate_calls pr rs t1)) s = allocated t s"
    using k1 by simp
  show ?case
  proof (cases "res = Inl Panic")
    case True
    then show ?thesis using a k1 by simp
  next
    case False
    then have "Allocate_calls pr (r # rs) t =
        (res # fst (Allocate_calls pr rs t1), snd (Allocate_calls pr rs t1))"
      using a by (cases res; cases "Allocate_calls pr rs t1") (auto split: error.splits)
    then show ?thesis using k2 by simp
  qed
qed

lemma Allocate_calls_returned:
  "Allocate_calls pr ranges t = (ress, t') \<Longrightarrow>
   distinct (map IP_String (returned ress)) \<and>
   (\<forall>ip \<in> set (returned ress).
      allocated t (IP_String ip) = None \<and> allocated t' (IP_String ip) = Some True \<and>
      PacketsRecv pr (IP_String ip) \<noteq> 3)"
proof (induction ranges arbitrary: t ress t')
  case Nil
  then show ?case by simp
next
  case (Cons r rs)
  obtain res t1 where a: "Allocate pr r t = (res, t1)" by (cases "Allocate pr r t")
  show ?case
  proof (cases "res = Inl Panic")
    case True
    with Cons.prems a have "ress = [Inl Panic]" by auto
    then show ?thesis by simp
  next
    case False
    obtain ress1 t2 where c: "Allocate_calls pr rs t1 = (ress1, t2)"
      by (cases "Allocate_calls pr rs t1")
    from Cons.prems a c False have r: "ress = res # ress1" and t': "t' = t2"
      by (cases res; auto split: error.splits)+
    note ih = Cons.IH [OF c]
    have old: "allocated t (IP_String ip) = None" if "ip \<in> set (returned ress1)" for ip
    proof (rule ccontr)
      assume "allocated t (IP_String ip) \<noteq> None"
      from Allocate_keeps [OF this, of pr r] a have "allocated t1 (IP_String ip) \<noteq> None"
        using \<open>allocated t (IP_String ip) \<noteq> None\<close> by simp
      moreover from ih that have "allocated t1 (IP_String ip) = None" by simp
      ultimately show False by simp
    qed
    show ?thesis
    proof (cases res)
      case (Inl e)
      then show ?thesis using r t' ih old by auto
    next
      case (Inr ip0)
      with a have a0: "Allocate pr r t = (Inr ip0, t1)" by simp
      note p = Allocate_Inr [OF a0]
      have claimed: "allocated t1 (IP_String ip0) \<noteq> None" using p by simp
      have "allocated t2 (IP_String ip0) = Some True"
        using Allocate_calls_keeps [OF claimed, of pr rs] c p by simp
      moreover have "IP_String ip0 \<notin> IP_String ` set (returned ress1)"
      proof
        assume "IP_String ip0 \<in> IP_String ` set (returned ress1)"
        then obtain ip where "ip \<in> set (returned ress1)" "IP_String ip = IP_String ip0" by auto
        with ih have "allocated t1 (IP_String ip0) = None" by metis
        with claimed show False by simp
      qed
      ultimately show ?thesis using r t' ih old p Inr by auto
    qed
  qed
qed

text \<open>
  C1. Over any sequence of \<^verbatim>\<open>Allocate\<close> calls of one run, starting from any allocation
  table and whatever the ranges, the addresses returned are pairwise different (also as
  strings, the keys of the table); each was unclaimed before the run, is recorded as
  claimed at its end, and had a probe that was not answered by all 3 echo requests.
\<close>

theorem Allocate_never_repeats:
  "Allocate_calls pr ranges t = (ress, t') \<Longrightarrow>
   distinct (returned ress) \<and> distinct (map IP_String (returned ress)) \<and>
   (\<forall>ip \<in> set (returned ress).
      allocated t (IP_String ip) = None \<and> allocated t' (IP_String ip) = Some True \<and>
      PacketsRecv pr (IP_String ip) \<noteq> 3)"
proof -
  assume "Allocate_calls pr ranges t = (ress, t')"
  from Allocate_calls_returned [OF this] show ?thesis
    by (simp add: distinct_map)
qed

lemma parse_1_2: "ParseIPRange ''10.0.0.1-2'' = Inr \<lparr>Start = 167772161, End = 167772162\<rparr>"
  by (simp add: ParseIPRange_def parseOctet_def isDigit_def digitVal_def ipv4_def)

lemma parse_1_3: "ParseIPRange ''10.0.0.1-3'' = Inr \<lparr>Start = 167772161, End = 167772163\<rparr>"
  by (simp add: ParseIPRange_def parseOctet_def isDigit_def digitVal_def ipv4_def)

lemma range_1_2: "rangeAddresses \<lparr>Start = 167772161, End = 167772162\<rparr> = [167772161, 167772162]"
  by (simp add: rangeAddresses_def upt_rec)

lemma range_1_3:
  "rangeAddresses \<lparr>Start = 167772161, End = 167772163\<rparr> = [167772161, 167772162, 167772163]"
  by (simp add: rangeAddresses_def upt_rec)

lemma IP_String_10:
  "IP_String 167772161 = ''10.0.0.1''" "IP_String 167772162 = ''10.0.0.2''"
  "IP_String 167772163 = ''10.0.0.3''"
  by (simp_all add: IP_String_def natString.simps digitChar_def)

lemma two_calls_none_live:
  "Allocate_calls probe_none_live [''10.0.0.1-2'', ''10.0.0.1-2''] fresh_table =
     ([Inr (ipv4 10 0 0 1), Inr (ipv4 10 0 0 2)],
      \<lparr>allocated = [''10.0.0.1'' \<mapsto> True, ''10.0.0.2'' \<mapsto> True], probed = [''10.0.0.1'', ''10.0.0.2'']\<rparr>)"
  by (auto simp: Allocate_def parse_1_2 range_1_2 IP_String_10 probe_none_live_def fresh_table_def ipv4_def)

theorem Allocate_never_repeats_witness:
  "Allocate_calls probe_none_live [''10.0.0.1-2'', ''10.0.0.1-2''] fresh_table =
     ([Inr (ipv4 10 0 0 1), Inr (ipv4 10 0 0 2)],
      \<lparr>allocated = [''10.0.0.1'' \<mapsto> True, ''10.0.0.2'' \<mapsto> True], probed = [''10.0.0.1'', ''10.0.0.2'']\<rparr>) \<and>
   distinct [ipv4 10 0 0 1, ipv4 10 0 0 2] \<and>
   PacketsRecv probe_none_live (IP_String (ipv4 10 0 0 1)) \<noteq> 3 \<and>
   PacketsRecv probe_none_live (IP_String (ipv4 10 0 0 2)) \<noteq> 3"
  using Allocate_never_repeats [OF two_calls_none_live] two_calls_none_live
  by (simp add: ipv4_def IP_String_10 probe_none_live_def)

lemma fresh_head:
  assumes "distinct (map f (c # rest))" and "x \<in> set rest"
  shows "f x \<noteq> f c"
proof
  assume "f x = f c"
  with assms(2) have "f c \<in> f ` set rest" by (metis imageI)
  with assms(1) show False by simp
qed

lemma Allocate_loop_find:
  "distinct (map IP_String cands) \<Longrightarrow>
   \<forall>ip \<in> set cands. \<not> NewPinger_fails pr (IP_String ip) \<Longrightarrow>
   fst (Allocate_loop pr cands t) =
     (case find (\<lambda>ip. allocated t (IP_String ip) = None \<and> PacketsRecv pr (IP_String ip) \<noteq> 3) cands of
        None \<Rightarrow> Inl NoAddresses
      | Some ip \<Rightarrow> Inr ip)"
proof (induction cands arbitrary: t)
  case Nil
  then show ?case by simp
next
  case (Cons c rest)
  let ?P = "\<lambda>t ip. allocated t (IP_String ip) = None \<and> PacketsRecv pr (IP_String ip) \<noteq> 3"
  from Cons.prems have d: "distinct (map IP_String rest)"
    and nf: "\<forall>ip \<in> set rest. \<not> NewPinger_fails pr (IP_String ip)"
    and nfc: "\<not> NewPinger_fails pr (IP_String c)"
    by auto
  from Cons.prems(1) have fresh: "\<forall>ip \<in> set rest. IP_String ip \<noteq> IP_String c"
    by (blast dest: fresh_head)
  show ?case
  proof (cases "allocated t (IP_String c) \<noteq> None")
    case True
    then show ?thesis using Cons.IH [OF d nf, of t] by auto
  next
    case unclaimed: False
    show ?thesis
    proof (cases "PacketsRecv pr (IP_String c) = 3")
      case True
      let ?t2 = "t\<lparr>allocated := (allocated t)(IP_String c \<mapsto> True), probed := probed t @ [IP_String c]\<rparr>"
      have "find (?P ?t2) rest = find (?P t) rest"
        using fresh by (intro find_cong) auto
      then show ?thesis
        using unclaimed True nfc Cons.IH [OF d nf, of ?t2] by (simp add: Let_def)
    next
      case False
      then show ?thesis using unclaimed nfc by (simp add: Let_def)
    qed
  qed
qed

lemma Allocate_loop_all_live:
  "distinct (map IP_String cands) \<Longrightarrow>
   \<forall>ip \<in> set cands. allocated t (IP_String ip) = None \<and> PacketsRecv pr (IP_String ip) = 3 \<and>
      \<not> NewPinger_fails pr (IP_String ip) \<Longrightarrow>
   fst (Allocate_loop pr cands t) = Inl NoAddresses \<and>
   probed (snd (Allocate_loop pr cands t)) = probed t @ map IP_String cands"
proof (induction cands arbitrary: t)
  case Nil
  then show ?case by simp
next
  case (Cons c rest)
  let ?t2 = "t\<lparr>allocated := (allocated t)(IP_String c \<mapsto> True), probed := probed t @ [IP_String c]\<rparr>"
  from Cons.prems(1) have fresh: "\<forall>ip \<in> set rest. IP_String ip \<noteq> IP_String c"
    by (blast dest: fresh_head)
  from Cons.prems have d: "distinct (map IP_String rest)"
    and c: "allocated t (IP_String c) = None" "PacketsRecv pr (IP_String c) = 3"
      "\<not> NewPinger_fails pr (IP_String c)"
    by auto
  have "\<forall>ip \<in> set rest. allocated ?t2 (IP_String ip) = None \<and> PacketsRecv pr (IP_String ip) = 3 \<and>
      \<not> NewPinger_fails pr (IP_String ip)"
    using Cons.prems(2) fresh by auto
  from Cons.IH [OF d this] show ?case using c by (simp add: Let_def)
qed

lemma ipv4_10:
  "ipv4 10 0 0 1 = 167772161" "ipv4 10 0 0 2 = 167772162" "ipv4 10 0 0 3 = 167772163"
  by (simp_all add: ipv4_def)

lemma scenario_two_live:
  "allocated t = Map.empty \<Longrightarrow>
   \<not> NewPinger_fails pr ''10.0.0.1'' \<Longrightarrow> \<not> NewPinger_fails pr ''10.0.0.2'' \<Longrightarrow>
   \<not> NewPinger_fails pr ''10.0.0.3'' \<Longrightarrow>
   PacketsRecv pr ''10.0.0.1'' = 3 \<Longrightarrow> PacketsRecv pr ''10.0.0.2'' = 3 \<Longrightarrow>
   PacketsRecv pr ''10.0.0.3'' \<noteq> 3 \<Longrightarrow>
   fst (Allocate pr ''10.0.0.1-3'' t) = Inr 167772163"
  by (simp add: Allocate_def parse_1_3 range_1_3 IP_String_10)

lemma scenario_two_calls:
  "allocated t = Map.empty \<Longrightarrow>
   \<not> NewPinger_fails pr ''10.0.0.1'' \<Longrightarrow> \<not> NewPinger_fails pr ''10.0.0.2'' \<Longrightarrow>
   PacketsRecv pr ''10.0.0.1'' \<noteq> 3 \<Longrightarrow> PacketsRecv pr ''10.0.0.2'' \<noteq> 3 \<Longrightarrow>
   fst (Allocate_calls pr [''10.0.0.1-2'', ''10.0.0.1-2''] t) = [Inr 167772161, Inr 167772162]"
  by (auto simp: Allocate_def parse_1_2 range_1_2 IP_String_10)

text \<open>
  C2. \<^verbatim>\<open>Allocate\<close> tries the candidates in the order of the range and returns the first
  one that is neither claimed already nor answered by all 3 echo requests (when every
  pinger can be constructed). For the range \<open>10.0.0.1-3\<close> with \<open>10.0.0.1\<close> and
  \<open>10.0.0.2\<close> live and \<open>10.0.0.3\<close> not live it returns \<open>10.0.0.3\<close>; two calls in
  a row on \<open>10.0.0.1-2\<close> with neither address live return \<open>10.0.0.1\<close> and then
  \<open>10.0.0.2\<close>.
\<close>

theorem Allocate_first_free:
  "(ParseIPRange iprange = Inr ipr \<and>
    (\<forall>ip \<in> set (rangeAddresses ipr). \<not> NewPinger_fails pr (IP_String ip)) \<longrightarrow>
    fst (Allocate pr iprange t) =
      (case find (\<lambda>ip. allocated t (IP_String ip) = None \<and> PacketsRecv pr (IP_String ip) \<noteq> 3)
              (rangeAddresses ipr) of
         None \<Rightarrow> Inl NoAddresses
       | Some ip \<Rightarrow> Inr ip)) \<and>
   (allocated t = Map.empty \<and>
    \<not> NewPinger_fails pr ''10.0.0.1'' \<and> \<not> NewPinger_fails pr ''10.0.0.2'' \<and>
    \<not> NewPinger_fails pr ''10.0.0.3'' \<and>
    PacketsRecv pr ''10.0.0.1'' = 3 \<and> PacketsRecv pr ''10.0.0.2'' = 3 \<and>
    PacketsRecv pr ''10.0.0.3'' \<noteq> 3 \<longrightarrow>
    fst (Allocate pr ''10.0.0.1-3'' t) = Inr (ipv4 10 0 0 3)) \<and>
   (allocated t = Map.empty \<and>
    \<not> NewPinger_fails pr ''10.0.0.1'' \<and> \<not> NewPinger_fails pr ''10.0.0.2'' \<and>
    PacketsRecv pr ''10.0.0.1'' \<noteq> 3 \<and> PacketsRecv pr ''10.0.0.2'' \<noteq> 3 \<longrightarrow>
    fst (Allocate_calls pr [''10.0.0.1-2'', ''10.0.0.1-2''] t) =
      [Inr (ipv4 10 0 0 1), Inr (ipv4 10 0 0 2)])"
proof (intro conjI impI)
  assume h: "ParseIPRange iprange = Inr ipr \<and>
    (\<forall>ip \<in> set (rangeAddresses ipr). \<not> NewPinger_fails pr (IP_String ip))"
  then have "fst (Allocate pr iprange t) = fst (Allocate_loop pr (rangeAddresses ipr) t)"
    by (simp add: Allocate_def)
  also have "\<dots> = (case find (\<lambda>ip. allocated t (IP_String ip) = None \<and> PacketsRecv pr (IP_String ip) \<noteq> 3)
              (rangeAddresses ipr) of None \<Rightarrow> Inl NoAddresses | Some ip \<Rightarrow> Inr ip)"
    using h by (intro Allocate_loop_find rangeAddresses_distinct) simp
  finally show "fst (Allocate pr iprange t) =
      (case find (\<lambda>ip. allocated t (IP_String ip) = None \<and> PacketsRecv pr (IP_String ip) \<noteq> 3)
              (rangeAddresses ipr) of None \<Rightarrow> Inl NoAddresses | Some ip \<Rightarrow> Inr ip)" .
next
  assume "allocated t = Map.empty \<and>
    \<not> NewPinger_fails pr ''10.0.0.1'' \<and> \<not> NewPinger_fails pr ''10.0.0.2'' \<and>
    \<not> NewPinger_fails pr ''10.0.0.3'' \<and>
    PacketsRecv pr ''10.0.0.1'' = 3 \<and> PacketsRecv pr ''10.0.0.2'' = 3 \<and>
    PacketsRecv pr ''10.0.0.3'' \<noteq> 3"
  then show "fst (Allocate pr ''10.0.0.1-3'' t) = Inr (ipv4 10 0 0 3)"
    unfolding ipv4_10 by (intro scenario_two_live) simp_all
next
  assume "allocated t = Map.empty \<and>
    \<not> NewPinger_fails pr ''10.0.0.1'' \<and> \<not> NewPinger_fails pr ''10.0.0.2'' \<and>
    PacketsRecv pr ''10.0.0.1'' \<noteq> 3 \<and> PacketsRecv pr ''10.0.0.2'' \<noteq> 3"
  then show "fst (Allocate_calls pr [''10.0.0.1-2'', ''10.0.0.1-2''] t) =
      [Inr (ipv4 10 0 0 1), Inr (ipv4 10 0 0 2)]"
    unfolding ipv4_10 by (intro scenario_two_calls) simp_all
qed

theorem Allocate_first_free_witness:
  "fst (Allocate probe_two_live ''10.0.0.1-3'' fresh_table) = Inr (ipv4 10 0 0 3) \<and>
   fst (Allocate_calls probe_none_live [''10.0.0.1-2'', ''10.0.0.1-2''] fresh_table) =
     [Inr (ipv4 10 0 0 1), Inr (ipv4 10 0 0 2)] \<and>
   find (\<lambda>ip. allocated fresh_table (IP_String ip) = None \<and>
               PacketsRecv probe_two_live (IP_String ip) \<noteq> 3)
     (rangeAddresses \<lparr>Start = ipv4 10 0 0 1, End = ipv4 10 0 0 3\<rparr>) = Some (ipv4 10 0 0 3)"
  using Allocate_first_free [of "''10.0.0.1-3''" "\<lparr>Start = ipv4 10 0 0 1, End = ipv4 10 0 0 3\<rparr>"
      probe_two_live fresh_table]
    Allocate_first_free [of "''10.0.0.1-2''" "\<lparr>Start = ipv4 10 0 0 1, End = ipv4 10 0 0 2\<rparr>"
      probe_none_live fresh_table]
  unfolding ipv4_10
  by (simp add: parse_1_3 parse_1_2 range_1_3 range_1_2 IP_String_10 probe_two_live_def
      probe_none_live_def fresh_table_def)

text \<open>
  C3. If every address of a range of size \<open>K\<close> is live, \<^verbatim>\<open>Allocate\<close> on a fresh
  allocation table fails with the exhaustion error after probing each of the \<open>K\<close>
  candidates once, in order: exactly \<open>K\<close> probes, no early return.
\<close>

theorem Allocate_exhausted:
  "ParseIPRange iprange = Inr ipr \<Longrightarrow> allocated t = Map.empty \<Longrightarrow>
   \<forall>ip \<in> set (rangeAddresses ipr).
      PacketsRecv pr (IP_String ip) = 3 \<and> \<not> NewPinger_fails pr (IP_String ip) \<Longrightarrow>
   fst (Allocate pr iprange t) = Inl NoAddresses \<and>
   probed (snd (Allocate pr iprange t)) = probed t @ map IP_String (rangeAddresses ipr) \<and>
   length (probed (snd (Allocate pr iprange t))) =
     length (probed t) + (Suc (unat (End ipr)) - unat (Start ipr))"
proof -
  assume p: "ParseIPRange iprange = Inr ipr" and e: "allocated t = Map.empty"
    and live: "\<forall>ip \<in> set (rangeAddresses ipr).
      PacketsRecv pr (IP_String ip) = 3 \<and> \<not> NewPinger_fails pr (IP_String ip)"
  have a: "Allocate pr iprange t = Allocate_loop pr (rangeAddresses ipr) t"
    using p by (simp add: Allocate_def)
  have "\<forall>ip \<in> set (rangeAddresses ipr). allocated t (IP_String ip) = None \<and>
      PacketsRecv pr (IP_String ip) = 3 \<and> \<not> NewPinger_fails pr (IP_String ip)"
    using live e by simp
  from Allocate_loop_all_live [OF rangeAddresses_distinct this]
  show ?thesis by (simp add: a rangeAddresses_length)
qed

theorem Allocate_exhausted_witness:
  "ParseIPRange ''10.0.0.1-3'' = Inr \<lparr>Start = ipv4 10 0 0 1, End = ipv4 10 0 0 3\<rparr> \<and>
   fst (Allocate probe_all_live ''10.0.0.1-3'' fresh_table) = Inl NoAddresses \<and>
   probed (snd (Allocate probe_all_live ''10.0.0.1-3'' fresh_table)) =
     [''10.0.0.1'', ''10.0.0.2'', ''10.0.0.3''] \<and>
   length (probed (snd (Allocate probe_all_live ''10.0.0.1-3'' fresh_table))) = 3"
  using Allocate_exhausted [of "''10.0.0.1-3''" "\<lparr>Start = ipv4 10 0 0 1, End = ipv4 10 0 0 3\<rparr>"
      fresh_table probe_all_live]
  unfolding ipv4_10
  by (simp add: parse_1_3 range_1_3 IP_String_10 probe_all_live_def fresh_table_def)

lemma Allocate_exec_loop_keeps:
  "allocated t s \<noteq> None \<Longrightarrow> allocated (snd (Allocate_exec_loop pr cands t)) s = allocated t s"
proof (induction cands arbitrary: t)
  case Nil
  then show ?case by simp
next
  case (Cons ip rest)
  show ?case
  proof (cases "allocated t (IP_String ip) \<noteq> None")
    case True
    then show ?thesis using Cons by simp
  next
    case False
    with Cons.prems have ne: "s \<noteq> IP_String ip" by auto
    let ?t1 = "t\<lparr>allocated := (allocated t)(IP_String ip \<mapsto> True), probed := probed t @ [IP_String ip]\<rparr>"
    have "allocated ?t1 s \<noteq> None" using Cons.prems ne by simp
    from Cons.IH [OF this] have "allocated (snd (Allocate_exec_loop pr rest ?t1)) s = allocated t s"
      using ne by simp
    then show ?thesis using False ne by (simp add: Let_def)
  qed
qed

lemma Allocate_exec_loop_Inr:
  "Allocate_exec_loop pr cands t = (Inr ip, t') \<Longrightarrow>
   allocated t (IP_String ip) = None \<and> allocated t' (IP_String ip) = Some True"
proof (induction cands arbitrary: t)
  case Nil
  then show ?case by simp
next
  case (Cons c rest)
  show ?case
  proof (cases "allocated t (IP_String c) \<noteq> None")
    case True
    with Cons.prems have "Allocate_exec_loop pr rest t = (Inr ip, t')" by simp
    from Cons.IH [OF this] show ?thesis .
  next
    case False
    let ?t1 = "t\<lparr>allocated := (allocated t)(IP_String c \<mapsto> True), probed := probed t @ [IP_String c]\<rparr>"
    show ?thesis
    proof (cases "Contains (ping_Output pr (IP_String c)) ''Destination Host Unreachable''")
      case True
      with Cons.prems False have "ip = c" "t' = ?t1" by (auto simp: Let_def)
      then show ?thesis using False by simp
    next
      case no: False
      with Cons.prems False have "Allocate_exec_loop pr rest ?t1 = (Inr ip, t')"
        by (simp add: Let_def)
      from Cons.IH [OF this] show ?thesis by (auto split: if_splits)
    qed
  qed
qed

lemma Allocate_loop_Panic:
  "fst (Allocate_loop pr cands t) = Inl Panic \<Longrightarrow> \<exists>ip \<in> set cands. NewPinger_fails pr (IP_String ip)"
proof (induction cands arbitrary: t)
  case Nil
  then show ?case by simp
next
  case (Cons c rest)
  show ?case
  proof (cases "NewPinger_fails pr (IP_String c)")
    case True
    then show ?thesis by simp
  next
    case False
    let ?t2 = "t\<lparr>allocated := (allocated t)(IP_String c \<mapsto> True), probed := probed t @ [IP_String c]\<rparr>"
    from Cons.prems False
    have "fst (Allocate_loop pr rest t) = Inl Panic \<or> fst (Allocate_loop pr rest ?t2) = Inl Panic"
      by (auto simp: Let_def split: if_splits)
    then have "\<exists>ip \<in> set rest. NewPinger_fails pr (IP_String ip)"
      using Cons.IH by blast
    then show ?thesis by simp
  qed
qed

lemma Allocate_exec_loop_find:
  "distinct (map IP_String cands) \<Longrightarrow>
   fst (Allocate_exec_loop pr cands t) =
     (case find (\<lambda>ip. allocated t (IP_String ip) = None \<and>
                   Contains (ping_Output pr (IP_String ip)) ''Destination Host Unreachable'') cands of
        None \<Rightarrow> Inl NoAddresses
      | Some ip \<Rightarrow> Inr ip)"
proof (induction cands arbitrary: t)
  case Nil
  then show ?case by simp
next
  case (Cons c rest)
  let ?P = "\<lambda>t ip. allocated t (IP_String ip) = None \<and>
                   Contains (ping_Output pr (IP_String ip)) ''Destination Host Unreachable''"
  from Cons.prems have d: "distinct (map IP_String rest)" by simp
  from Cons.prems have fresh: "\<forall>ip \<in> set rest. IP_String ip \<noteq> IP_String c"
    by (blast dest: fresh_head)
  show ?case
  proof (cases "allocated t (IP_String c) \<noteq> None")
    case True
    then show ?thesis using Cons.IH [OF d, of t] by auto
  next
    case unclaimed: False
    show ?thesis
    proof (cases "Contains (ping_Output pr (IP_String c)) ''Destination Host Unreachable''")
      case True
      then show ?thesis using unclaimed by (simp add: Let_def)
    next
      case False
      let ?t1 = "t\<lparr>allocated := (allocated t)(IP_String c \<mapsto> True), probed := probed t @ [IP_String c]\<rparr>"
      have "find (?P ?t1) rest = find (?P t) rest"
        using fresh by (intro find_cong) auto
      then show ?thesis
        using unclaimed False Cons.IH [OF d, of ?t1] by (simp add: Let_def)
    qed
  qed
qed

lemma Allocate_exec_loop_claims:
  "distinct (map IP_String cands) \<Longrightarrow>
   ip \<in> set (takeWhile (\<lambda>x. \<not> (allocated t (IP_String x) = None \<and>
              Contains (ping_Output pr (IP_String x)) ''Destination Host Unreachable'')) cands) \<Longrightarrow>
   allocated (snd (Allocate_exec_loop pr cands t)) (IP_String ip) =
     (case allocated t (IP_String ip) of None \<Rightarrow> Some True | Some b \<Rightarrow> Some b)"
proof (induction cands arbitrary: t)
  case Nil
  then show ?case by simp
next
  case (Cons c rest)
  let ?P = "\<lambda>t x. allocated t (IP_String x) = None \<and>
              Contains (ping_Output pr (IP_String x)) ''Destination Host Unreachable''"
  show ?case
  proof (cases "allocated t (IP_String ip)")
    case (Some b)
    then have "allocated t (IP_String ip) \<noteq> None" by simp
    from Allocate_exec_loop_keeps [OF this, of pr "c # rest"] show ?thesis using Some by simp
  next
    case None
    from Cons.prems(1) have d: "distinct (map IP_String rest)" by simp
    from Cons.prems(1) have fresh: "\<forall>x \<in> set rest. IP_String x \<noteq> IP_String c"
      by (blast dest: fresh_head)
    from Cons.prems(2) have nP: "\<not> ?P t c" and mem: "ip = c \<or> ip \<in> set (takeWhile (\<lambda>x. \<not> ?P t x) rest)"
      by (auto split: if_splits)
    show ?thesis
    proof (cases "allocated t (IP_String c) \<noteq> None")
      case True
      with None have "ip \<noteq> c" by auto
      with mem have "ip \<in> set (takeWhile (\<lambda>x. \<not> ?P t x) rest)" by simp
      from Cons.IH [OF d this] show ?thesis using True by simp
    next
      case unclaimed: False
      with nP have nomark: "\<not> Contains (ping_Output pr (IP_String c)) ''Destination Host Unreachable''"
        by simp
      let ?t1 = "t\<lparr>allocated := (allocated t)(IP_String c \<mapsto> True), probed := probed t @ [IP_String c]\<rparr>"
      have step: "Allocate_exec_loop pr (c # rest) t = Allocate_exec_loop pr rest ?t1"
        using unclaimed nomark by (simp add: Let_def)
      show ?thesis
      proof (cases "IP_String ip = IP_String c")
        case True
        have "allocated ?t1 (IP_String ip) \<noteq> None" using True by simp
        from Allocate_exec_loop_keeps [OF this, of pr rest] show ?thesis
          using step True None by simp
      next
        case False
        then have "ip \<noteq> c" by auto
        with mem have m: "ip \<in> set (takeWhile (\<lambda>x. \<not> ?P t x) rest)" by simp
        have "takeWhile (\<lambda>x. \<not> ?P ?t1 x) rest = takeWhile (\<lambda>x. \<not> ?P t x) rest"
          using fresh by (intro takeWhile_cong) auto
        with m have "ip \<in> set (takeWhile (\<lambda>x. \<not> ?P ?t1 x) rest)" by simp
        from Cons.IH [OF d this] show ?thesis using step False by simp
      qed
    qed
  qed
qed

text \<open>
  C4, as stated, fails for the allocator that runs the \<^verbatim>\<open>ping\<close> command: a probe
  that fails without output, or that gets no reply, does not make it return the
  candidate. The ICMP-library allocator returns the candidate on the same probe.
\<close>

theorem exec_probe_error_counterexample:
  "fst (Allocate_exec probe_transport_error ''10.0.0.1-2'' fresh_table) = Inl NoAddresses \<and>
   fst (Allocate_exec probe_no_reply ''10.0.0.1-2'' fresh_table) = Inl NoAddresses \<and>
   fst (Allocate probe_transport_error ''10.0.0.1-2'' fresh_table) = Inr (ipv4 10 0 0 1)"
  unfolding ipv4_10
  by (simp add: Allocate_exec_def Allocate_def parse_1_2 range_1_2 IP_String_10
      probe_transport_error_def probe_no_reply_def fresh_table_def)

text \<open>
  C4, amended. In the ICMP-library allocator a probe with fewer than 3 replies (none at
  all, or replies lost to a transport error) leaves the candidate free: the call
  returns the first unclaimed candidate not answered by all 3 requests, and it panics
  only if a pinger cannot be constructed. The allocator that runs \<^verbatim>\<open>ping\<close> has no
  fatal outcome either, but it treats a candidate as free only if the output of the
  command contains \<open>Destination Host Unreachable\<close>: it returns the first unclaimed
  candidate with such an output. Every candidate before that one (every candidate of
  the range if there is none) is skipped and is claimed in the table after the call:
  newly claimed if it was unclaimed, as it was otherwise.
\<close>

theorem probe_outcomes:
  "ParseIPRange iprange = Inr ipr \<Longrightarrow>
   ((\<forall>ip \<in> set (rangeAddresses ipr). \<not> NewPinger_fails pr (IP_String ip)) \<longrightarrow>
      fst (Allocate pr iprange t) =
        (case find (\<lambda>ip. allocated t (IP_String ip) = None \<and> PacketsRecv pr (IP_String ip) \<noteq> 3)
                (rangeAddresses ipr) of
           None \<Rightarrow> Inl NoAddresses
         | Some ip \<Rightarrow> Inr ip)) \<and>
   (fst (Allocate pr iprange t) = Inl Panic \<longrightarrow>
      (\<exists>ip \<in> set (rangeAddresses ipr). NewPinger_fails pr (IP_String ip))) \<and>
   fst (Allocate_exec pr iprange t) =
     (case find (\<lambda>ip. allocated t (IP_String ip) = None \<and>
                   Contains (ping_Output pr (IP_String ip)) ''Destination Host Unreachable'')
             (rangeAddresses ipr) of
        None \<Rightarrow> Inl NoAddresses
      | Some ip \<Rightarrow> Inr ip) \<and>
   (\<forall>ip \<in> set (takeWhile
                   (\<lambda>x. \<not> (allocated t (IP_String x) = None \<and>
                           Contains (ping_Output pr (IP_String x)) ''Destination Host Unreachable''))
                   (rangeAddresses ipr)).
      allocated (snd (Allocate_exec pr iprange t)) (IP_String ip) =
        (case allocated t (IP_String ip) of None \<Rightarrow> Some True | Some b \<Rightarrow> Some b))"
proof -
  assume p: "ParseIPRange iprange = Inr ipr"
  have a: "Allocate pr iprange t = Allocate_loop pr (rangeAddresses ipr) t"
    using p by (simp add: Allocate_def)
  have e: "Allocate_exec pr iprange t = Allocate_exec_loop pr (rangeAddresses ipr) t"
    using p by (simp add: Allocate_exec_def)
  have first: "((\<forall>ip \<in> set (rangeAddresses ipr). \<not> NewPinger_fails pr (IP_String ip)) \<longrightarrow>
      fst (Allocate_loop pr (rangeAddresses ipr) t) =
        (case find (\<lambda>ip. allocated t (IP_String ip) = None \<and> PacketsRecv pr (IP_String ip) \<noteq> 3)
                (rangeAddresses ipr) of
           None \<Rightarrow> Inl NoAddresses
         | Some ip \<Rightarrow> Inr ip)) \<and>
     (fst (Allocate_loop pr (rangeAddresses ipr) t) = Inl Panic \<longrightarrow>
        (\<exists>ip \<in> set (rangeAddresses ipr). NewPinger_fails pr (IP_String ip))) \<and>
     fst (Allocate_exec_loop pr (rangeAddresses ipr) t) =
       (case find (\<lambda>ip. allocated t (IP_String ip) = None \<and>
                     Contains (ping_Output pr (IP_String ip)) ''Destination Host Unreachable'')
               (rangeAddresses ipr) of
          None \<Rightarrow> Inl NoAddresses
        | Some ip \<Rightarrow> Inr ip)"
    using Allocate_loop_find [OF rangeAddresses_distinct, of ipr pr t]
      Allocate_loop_Panic [of pr "rangeAddresses ipr" t]
      Allocate_exec_loop_find [OF rangeAddresses_distinct, of pr ipr t]
    by blast
  have claimed: "\<forall>ip \<in> set (takeWhile
                   (\<lambda>x. \<not> (allocated t (IP_String x) = None \<and>
                           Contains (ping_Output pr (IP_String x)) ''Destination Host Unreachable''))
                   (rangeAddresses ipr)).
      allocated (snd (Allocate_exec_loop pr (rangeAddresses ipr) t)) (IP_String ip) =
        (case allocated t (IP_String ip) of None \<Rightarrow> Some True | Some b \<Rightarrow> Some b)"
    by (intro ballI Allocate_exec_loop_claims rangeAddresses_distinct)
  show ?thesis
    unfolding a e using first claimed by simp
qed

theorem probe_outcomes_witness:
  "ParseIPRange ''10.0.0.1-2'' = Inr \<lparr>Start = ipv4 10 0 0 1, End = ipv4 10 0 0 2\<rparr> \<and>
   fst (Allocate probe_transport_error ''10.0.0.1-2'' fresh_table) = Inr (ipv4 10 0 0 1) \<and>
   fst (Allocate probe_transport_error ''10.0.0.1-2'' fresh_table) \<noteq> Inl Panic \<and>
   fst (Allocate_exec probe_transport_error ''10.0.0.1-2'' fresh_table) = Inl NoAddresses \<and>
   allocated (snd (Allocate_exec probe_transport_error ''10.0.0.1-2'' fresh_table)) ''10.0.0.1'' =
     Some True \<and>
   allocated (snd (Allocate_exec probe_transport_error ''10.0.0.1-2'' fresh_table)) ''10.0.0.2'' =
     Some True \<and>
   fst (Allocate probe_no_pinger ''10.0.0.1-2'' fresh_table) = Inl Panic \<and>
   NewPinger_fails probe_no_pinger (IP_String (ipv4 10 0 0 1))"
  using probe_outcomes [of "''10.0.0.1-2''" "\<lparr>Start = ipv4 10 0 0 1, End = ipv4 10 0 0 2\<rparr>"
      probe_transport_error fresh_table]
    probe_outcomes [of "''10.0.0.1-2''" "\<lparr>Start = ipv4 10 0 0 1, End = ipv4 10 0 0 2\<rparr>"
      probe_no_pinger fresh_table]
  unfolding ipv4_10
  by (simp add: parse_1_2 range_1_2 IP_String_10 probe_transport_error_def probe_no_pinger_def
      fresh_table_def Allocate_def Allocate_exec_def)

subsection \<open>The forwarding command\<close>

lemma say_twice: "say e2 (say e1 s) = s\<lparr>log := log s @ [e1, e2]\<rparr>"
  by (simp add: say_def)

lemma empty_selector_step:
  "svc_Selector svc = [] \<Longrightarrow>
   fwdServices_loop env fl opts (svc # svcs) s =
     fwdServices_loop env fl opts svcs (say (noBackingPods svc) s)"
  by (simp add: mapToSelectorStr_def)

lemma empty_selectors_all:
  "\<forall>svc \<in> set svcs. svc_Selector svc = [] \<Longrightarrow>
   fwdServices_loop env fl opts svcs s = (Inr None, s\<lparr>log := log s @ map noBackingPods svcs\<rparr>)"
proof (induction svcs arbitrary: s)
  case Nil
  then show ?case by simp
next
  case (Cons svc svcs)
  from Cons.prems have e: "svc_Selector svc = []" by simp
  have "fwdServices_loop env fl opts (svc # svcs) s =
      fwdServices_loop env fl opts svcs (say (noBackingPods svc) s)"
    by (rule empty_selector_step [OF e])
  also have "\<dots> = (Inr None, (say (noBackingPods svc) s)\<lparr>log := log (say (noBackingPods svc) s) @ map noBackingPods svcs\<rparr>)"
    using Cons.prems by (intro Cons.IH) simp
  finally show ?case by (simp add: say_def)
qed

text \<open>
  C6. A service whose selector map is empty adds one line to the output, the warning
  \<open>No backing pods for service ...\<close>, and nothing else: no allocation, no command, no
  session, no error; the loop goes on with the next service. A list of such services
  yields one warning each and returns no error.
\<close>

theorem empty_selector_skipped:
  "(svc_Selector svc = [] \<longrightarrow>
      fwdServices_loop env fl opts (svc # svcs) s =
        fwdServices_loop env fl opts svcs
          (s\<lparr>log := log s @
             [Warning (''No backing pods for service '' @ svc_Name svc @ '' in '' @
                       svc_Namespace svc @ '' on cluster '' @ svc_ClusterName svc @ ''.'')]\<rparr>)) \<and>
   ((\<forall>svc \<in> set svcs. svc_Selector svc = []) \<longrightarrow>
      fwdServices_loop env fl opts svcs s =
        (Inr None,
         s\<lparr>log := log s @
            map (\<lambda>svc. Warning (''No backing pods for service '' @ svc_Name svc @ '' in '' @
                                svc_Namespace svc @ '' on cluster '' @ svc_ClusterName svc @ ''.''))
              svcs\<rparr>))"
proof -
  have w: "noBackingPods =
      (\<lambda>svc. Warning (''No backing pods for service '' @ svc_Name svc @ '' in '' @
                       svc_Namespace svc @ '' on cluster '' @ svc_ClusterName svc @ ''.''))"
    by (rule ext) (simp add: noBackingPods_def)
  show ?thesis
    using empty_selector_step [of svc env fl opts svcs s] empty_selectors_all [of svcs env fl opts s]
    by (simp add: say_def w)
qed

lemma fwdServices_loop_invariant:
  assumes q: "Q s"
    and q_say: "\<And>e s. Q s \<Longrightarrow> Q (say e s)"
    and q_err: "\<And>s r res t1. Q s \<Longrightarrow> fwdnet_Allocate env r (table s) = (Inl res, t1) \<Longrightarrow>
                  Q (s\<lparr>table := t1\<rparr>)"
    and q_ok: "\<And>s r ip t1 svc pod ports e1 e2. Q s \<Longrightarrow>
                  fwdnet_Allocate env r (table s) = (Inr ip, t1) \<Longrightarrow>
                  Q (fwdPorts env fl opts svc pod ip ports (say e2 (say e1 (s\<lparr>table := t1\<rparr>))))"
  shows "Q (snd (fwdServices_loop env fl opts svcs s))"
  using q
proof (induction svcs arbitrary: s)
  case Nil
  then show ?case by simp
next
  case (Cons svc svcs)
  let ?sel = "mapToSelectorStr (svc_Selector svc)"
  note rec = Cons.IH
  show ?case
  proof (cases "?sel = []")
    case True
    then show ?thesis using rec [OF q_say [OF Cons.prems]] by (simp add: Let_def)
  next
    case sel: False
    show ?thesis
    proof (cases "Pods_List env (Context opts) (svc_Namespace svc) ?sel")
      case (Inl err)
      then show ?thesis using sel rec [OF q_say [OF Cons.prems]] by (simp add: Let_def)
    next
      case (Inr pods)
      show ?thesis
      proof (cases "length pods < 1")
        case True
        then show ?thesis using sel Inr rec [OF q_say [OF Cons.prems]] by (simp add: Let_def)
      next
        case pods: False
        obtain res t1 where a: "fwdnet_Allocate env (NetworkRange opts) (table s) = (res, t1)"
          by (cases "fwdnet_Allocate env (NetworkRange opts) (table s)")
        show ?thesis
        proof (cases res)
          case (Inl e)
          with a have a': "fwdnet_Allocate env (NetworkRange opts) (table s) = (Inl e, t1)" by simp
          note q1 = q_err [OF Cons.prems a']
          show ?thesis
          proof (cases "e = Panic")
            case True
            then show ?thesis using sel Inr pods a' q1 by (simp add: Let_def)
          next
            case False
            then show ?thesis using sel Inr pods a' rec [OF q_say [OF q1]]
              by (cases e) (simp_all add: Let_def)
          qed
        next
          case (Inr ip)
          with a have a': "fwdnet_Allocate env (NetworkRange opts) (table s) = (Inr ip, t1)" by simp
          show ?thesis
          proof (cases "ip_addr_add env (IP_String ip) (NetworkInterface opts)")
            case None
            from q_ok [OF Cons.prems a']
            have "Q (fwdPorts env fl opts svc (hd pods) ip (svc_Ports svc)
                      (say (Print (''DNS: '' @ svc_Name svc @ ''.'' @ svc_Namespace svc @ ''.'' @
                                   IP_String ip @ ''.xip.io''))
                         (say (Exec [''ip'', ''addr'', ''add'', IP_String ip, ''dev'',
                                     NetworkInterface opts]) (s\<lparr>table := t1\<rparr>))))" .
            from rec [OF this] show ?thesis
              using sel \<open>Pods_List env (Context opts) (svc_Namespace svc) ?sel = Inr pods\<close> pods a' None
              by (simp add: Let_def)
          next
            case (Some err)
            from q_ok [OF Cons.prems a', of svc "hd pods" "[]"]
            have "Q (say (Print (''Cannot ifconfig '' @ NetworkInterface opts @ '' alias '' @
                                 IP_String ip @ '' up: '' @ err))
                       (say (Exec [''ip'', ''addr'', ''add'', IP_String ip, ''dev'',
                                   NetworkInterface opts]) (s\<lparr>table := t1\<rparr>)))"
              by simp
            then show ?thesis
              using sel \<open>Pods_List env (Context opts) (svc_Namespace svc) ?sel = Inr pods\<close> pods a' Some
              by (simp add: Let_def)
          qed
        qed
      qed
    qed
  qed
qed

lemma fwdnet_Allocate_keeps:
  "allocated t s \<noteq> None \<Longrightarrow> allocated (snd (fwdnet_Allocate env r t)) s = allocated t s"
  by (cases "fwdnet env"; cases "ParseIPRange r")
     (simp_all add: fwdnet_Allocate_def Allocate_def Allocate_exec_def Allocate_loop_keeps
        Allocate_exec_loop_keeps)

lemma fwdnet_Allocate_Inr:
  "fwdnet_Allocate env r t = (Inr ip, t') \<Longrightarrow>
   allocated t (IP_String ip) = None \<and> allocated t' (IP_String ip) = Some True"
  by (cases "fwdnet env"; cases "ParseIPRange r")
     (auto simp: fwdnet_Allocate_def Allocate_def Allocate_exec_def
        dest: Allocate_loop_Inr Allocate_exec_loop_Inr)

lemma fwdPorts_table: "table (fwdPorts env fl opts svc pod ip ports s) = table s"
  by (induction ports arbitrary: s) (simp_all add: Let_def say_def split: option.splits)

lemma fwdPorts_wg:
  "wg (fwdPorts env fl opts svc pod ip ports s) -
     int (length (spawned (fwdPorts env fl opts svc pod ip ports s))) =
   wg s - int (length (spawned s))"
  by (induction ports arbitrary: s) (simp_all add: Let_def say_def split: option.splits)

lemma fwdPorts_spawned:
  "\<exists>new. spawned (fwdPorts env fl opts svc pod ip ports s) = spawned s @ new \<and>
     (\<forall>a \<in> set new.
        a\<lparr>pfo_PodPort := [], pfo_LocalPort := []\<rparr> =
          \<lparr>pfo_Context = Context opts, pfo_Namespace = pod_Namespace pod,
           pfo_Service = svc_Name svc, pfo_PodName = pod_Name pod, pfo_PodPort = [],
           pfo_LocalIP = ip, pfo_LocalPort = [],
           pfo_NetworkInterface = NetworkInterface opts,
           pfo_ShortName = ShortName opts, pfo_Remote = Remote opts,
           pfo_ExitOnFail = exitOnFail fl\<rparr>)"
proof (induction ports arbitrary: s)
  case Nil
  then show ?case by simp
next
  case (Cons port ports)
  show ?case
  proof (cases "Pods_Get env (Context opts) (pod_Namespace pod) (pod_Name pod)")
    case (Some err)
    then show ?thesis by (simp add: say_def)
  next
    case None
    let ?pfo = "\<lparr>pfo_Context = Context opts, pfo_Namespace = pod_Namespace pod,
                  pfo_Service = svc_Name svc, pfo_PodName = pod_Name pod,
                  pfo_PodPort = resolvePodPort (sp_TargetPort port) (pod_Containers pod),
                  pfo_LocalIP = ip, pfo_LocalPort = Itoa (sint (sp_Port port)),
                  pfo_NetworkInterface = NetworkInterface opts,
                  pfo_ShortName = ShortName opts, pfo_Remote = Remote opts,
                  pfo_ExitOnFail = exitOnFail fl\<rparr>"
    obtain s' where step: "fwdPorts env fl opts svc pod ip (port # ports) s =
        fwdPorts env fl opts svc pod ip ports s'" and sp: "spawned s' = spawned s @ [?pfo]"
      using None by (simp add: Let_def say_def)
    from Cons.IH [of s'] obtain new where
      n: "spawned (fwdPorts env fl opts svc pod ip ports s') = spawned s' @ new"
      and a: "\<forall>a \<in> set new.
        a\<lparr>pfo_PodPort := [], pfo_LocalPort := []\<rparr> =
          \<lparr>pfo_Context = Context opts, pfo_Namespace = pod_Namespace pod,
           pfo_Service = svc_Name svc, pfo_PodName = pod_Name pod, pfo_PodPort = [],
           pfo_LocalIP = ip, pfo_LocalPort = [],
           pfo_NetworkInterface = NetworkInterface opts,
           pfo_ShortName = ShortName opts, pfo_Remote = Remote opts,
           pfo_ExitOnFail = exitOnFail fl\<rparr>"
      by blast
    have "spawned (fwdPorts env fl opts svc pod ip (port # ports) s) = spawned s @ (?pfo # new)"
      using step n sp by simp
    moreover have "\<forall>a \<in> set (?pfo # new).
        a\<lparr>pfo_PodPort := [], pfo_LocalPort := []\<rparr> =
          \<lparr>pfo_Context = Context opts, pfo_Namespace = pod_Namespace pod,
           pfo_Service = svc_Name svc, pfo_PodName = pod_Name pod, pfo_PodPort = [],
           pfo_LocalIP = ip, pfo_LocalPort = [],
           pfo_NetworkInterface = NetworkInterface opts,
           pfo_ShortName = ShortName opts, pfo_Remote = Remote opts,
           pfo_ExitOnFail = exitOnFail fl\<rparr>"
      using a by simp
    ultimately show ?thesis by blast
  qed
qed

lemma addressOwners_say: "addressOwners (say e s) = addressOwners s"
  by (simp add: addressOwners_def say_def)

lemma addressOwners_table:
  assumes o: "addressOwners s"
    and k: "\<And>x. allocated (table s) x \<noteq> None \<Longrightarrow> allocated t1 x = allocated (table s) x"
  shows "addressOwners (s\<lparr>table := t1\<rparr>)"
  using o k unfolding addressOwners_def by force

lemma addressOwners_ports:
  assumes o: "addressOwners s"
    and a: "fwdnet_Allocate env r (table s) = (Inr ip, t1)"
  shows "addressOwners (fwdPorts env fl opts svc pod ip ports (say e2 (say e1 (s\<lparr>table := t1\<rparr>))))"
proof -
  let ?s1 = "say e2 (say e1 (s\<lparr>table := t1\<rparr>))"
  let ?s2 = "fwdPorts env fl opts svc pod ip ports ?s1"
  let ?base = "\<lparr>pfo_Context = Context opts, pfo_Namespace = pod_Namespace pod,
           pfo_Service = svc_Name svc, pfo_PodName = pod_Name pod, pfo_PodPort = [],
           pfo_LocalIP = ip, pfo_LocalPort = [],
           pfo_NetworkInterface = NetworkInterface opts,
           pfo_ShortName = ShortName opts, pfo_Remote = Remote opts,
           pfo_ExitOnFail = exitOnFail fl\<rparr>"
  from fwdnet_Allocate_Inr [OF a]
  have fresh: "allocated (table s) (IP_String ip) = None" and claimed: "allocated t1 (IP_String ip) = Some True"
    by simp_all
  have keep: "allocated t1 x = allocated (table s) x" if "allocated (table s) x \<noteq> None" for x
    using fwdnet_Allocate_keeps [OF that, of env r] a by simp
  obtain new where n: "spawned ?s2 = spawned s @ new"
    and b: "\<forall>a \<in> set new. a\<lparr>pfo_PodPort := [], pfo_LocalPort := []\<rparr> = ?base"
    using fwdPorts_spawned [of env fl opts svc pod ip ports ?s1] by (auto simp: say_def)
  have t: "table ?s2 = t1" by (simp add: fwdPorts_table say_def)
  have newip: "pfo_LocalIP a = ip" if "a \<in> set new" for a
  proof -
    from b that have "pfo_LocalIP (a\<lparr>pfo_PodPort := [], pfo_LocalPort := []\<rparr>) = pfo_LocalIP ?base"
      by simp
    then show ?thesis by simp
  qed
  have old: "allocated (table s) (IP_String (pfo_LocalIP a)) = Some True" if "a \<in> set (spawned s)" for a
    using o that by (simp add: addressOwners_def)
  have old1: "allocated t1 (IP_String (pfo_LocalIP a)) = Some True" if "a \<in> set (spawned s)" for a
  proof -
    have "allocated (table s) (IP_String (pfo_LocalIP a)) \<noteq> None"
      using old [OF that] by simp
    from keep [OF this] show ?thesis using old [OF that] by simp
  qed
  have oldnew: "IP_String (pfo_LocalIP a) \<noteq> IP_String (pfo_LocalIP c)"
    if "a \<in> set (spawned s)" "c \<in> set new" for a c
    using old [OF that(1)] newip [OF that(2)] fresh by auto
  have same_new: "sameService a c" if "a \<in> set new" "c \<in> set new" for a c
    using b that by (simp add: sameService_def)
  have same_old: "sameService a c"
    if "a \<in> set (spawned s)" "c \<in> set (spawned s)"
      "IP_String (pfo_LocalIP a) = IP_String (pfo_LocalIP c)" for a c
    using o that by (simp add: addressOwners_def)
  show ?thesis
    unfolding addressOwners_def n t
  proof (intro conjI ballI impI)
    fix a assume "a \<in> set (spawned s @ new)"
    then show "allocated t1 (IP_String (pfo_LocalIP a)) = Some True"
      using old1 newip claimed by auto
  next
    fix a c
    assume "a \<in> set (spawned s @ new)" "c \<in> set (spawned s @ new)"
      "IP_String (pfo_LocalIP a) = IP_String (pfo_LocalIP c)"
    then show "sameService a c"
      using same_new same_old oldnew by (metis Un_iff set_append)
  qed
qed

lemma addressOwners_loop:
  "addressOwners s \<Longrightarrow> addressOwners (snd (fwdServices_loop env fl opts svcs s))"
proof (rule fwdServices_loop_invariant [where Q = addressOwners])
  show "\<And>e s. addressOwners s \<Longrightarrow> addressOwners (say e s)"
    by (simp add: addressOwners_say)
next
  fix s r res t1
  assume "addressOwners s" and a: "fwdnet_Allocate env r (table s) = (Inl res, t1)"
  then show "addressOwners (s\<lparr>table := t1\<rparr>)"
    using fwdnet_Allocate_keeps [of "table s" _ env r] by (intro addressOwners_table) auto
next
  show "\<And>s r ip t1 svc pod ports e1 e2. addressOwners s \<Longrightarrow>
          fwdnet_Allocate env r (table s) = (Inr ip, t1) \<Longrightarrow>
          addressOwners (fwdPorts env fl opts svc pod ip ports (say e2 (say e1 (s\<lparr>table := t1\<rparr>))))"
    by (rule addressOwners_ports)
qed

lemma addressOwners_fwdServices:
  "addressOwners s \<Longrightarrow> addressOwners (snd (fwdServices env fl opts s))"
  by (cases "Services_List env (Context opts) (Namespace opts) (ListOptions opts)")
     (simp_all add: fwdServices_def addressOwners_loop)

lemma addressOwners_cong:
  "table s' = table s \<Longrightarrow> spawned s' = spawned s \<Longrightarrow> addressOwners s' = addressOwners s"
  by (simp add: addressOwners_def)

lemma deleteIP_keeps:
  "table (deleteIP env ip ifc s) = table s \<and> spawned (deleteIP env ip ifc s) = spawned s \<and>
   wg (deleteIP env ip ifc s) = wg s"
  by (simp add: deleteIP_def say_def Let_def split: option.splits)

lemma sessionTeardown_keeps:
  "table (sessionTeardown env pfo err s) = table s \<and>
   spawned (sessionTeardown env pfo err s) = spawned s \<and>
   wg (sessionTeardown env pfo err s) = wg s - 1"
  by (simp add: sessionTeardown_def deleteIP_keeps say_def Let_def split: option.splits)

lemma fatal_keeps:
  "table (st (fatal msg p)) = table (st p) \<and> spawned (st (fatal msg p)) = spawned (st p) \<and>
   wg (st (fatal msg p)) = wg (st p) \<and> ended (fatal msg p) = ended p \<and>
   saves (fatal msg p) = saves p \<and> pc (fatal msg p) = Exited (OsExit 1)"
  by (simp add: fatal_def say_def)

lemma runStart_keeps:
  "table (st (runStart env fl p)) = table (st p) \<and>
   spawned (st (runStart env fl p)) = spawned (st p) \<and>
   wg (st (runStart env fl p)) = wg (st p) \<and> ended (runStart env fl p) = ended p \<and>
   saves (runStart env fl p) = saves p"
  by (simp add: runStart_def fatal_keeps say_def Let_def split: option.splits sum.splits prod.splits)

lemma runStart_pc:
  "pc (runStart env fl p) = Returned \<longleftrightarrow> \<not> fst (CheckRoot env) \<and> snd (CheckRoot env) = None"
  "pc (runStart env fl p) \<noteq> AtSave" "pc (runStart env fl p) \<noteq> AtWait"
  by (simp_all add: runStart_def fatal_keeps say_def Let_def split: option.splits sum.splits prod.splits)

lemma addressOwners_mainStep:
  assumes o: "addressOwners (st p)"
  shows "addressOwners (st (mainStep env fl p))"
proof (cases "pc p")
  case AtStart
  then show ?thesis
    using o addressOwners_cong [of "st (runStart env fl p)" "st p"] runStart_keeps [of env fl p]
    by (simp add: mainStep_def)
next
  case (InContexts i ctxs)
  then show ?thesis
    using o addressOwners_cong [of "st (fatal _ p)" "st p"] fatal_keeps [of _ p]
    by (cases ctxs) (simp_all add: mainStep_def split: option.splits)
next
  case (InNamespaces i ctx ii nss ctxs)
  show ?thesis
  proof (cases nss)
    case Nil
    then show ?thesis using o InNamespaces by (simp add: mainStep_def)
  next
    case (Cons ns nss')
    let ?opts = "\<lparr>Context = ctx, Namespace = ns, ListOptions = selector_flag fl,
                   ShortName = (i < 1 \<and> ii < 1), Remote = (i > 0),
                   NetworkInterface = iface fl, NetworkRange = networkRange fl,
                   ExitOnFail = exitOnFail fl\<rparr>"
    obtain res s1 where f: "fwdServices env fl ?opts (st p) = (res, s1)"
      by (cases "fwdServices env fl ?opts (st p)")
    from addressOwners_fwdServices [OF o, of env fl ?opts] f have "addressOwners s1" by simp
    then show ?thesis
      using InNamespaces Cons f
      by (cases res) (simp_all add: mainStep_def addressOwners_say split: option.splits)
  qed
next
  case AtWait
  then show ?thesis using o by (simp add: mainStep_def addressOwners_say)
next
  case AtSave
  then show ?thesis
    using o by (simp add: mainStep_def fatal_def addressOwners_say Let_def split: option.splits)
next
  case (Exited h)
  then show ?thesis using o by (simp add: mainStep_def)
next
  case Returned
  then show ?thesis using o by (simp add: mainStep_def)
qed

lemma addressOwners_sessionEnd:
  "addressOwners (st p) \<Longrightarrow> addressOwners (st (sessionEnd env i p))"
  using addressOwners_cong [of "sessionTeardown env (spawned (st p) ! i) _ (st p)" "st p"]
    sessionTeardown_keeps [of env "spawned (st p) ! i" _ "st p"]
  by (simp add: sessionEnd_def split: tunnel.splits)

lemma addressOwners_exec:
  "addressOwners (st p) \<Longrightarrow> addressOwners (st (exec env fl sched p))"
proof (induction sched arbitrary: p)
  case Nil
  then show ?case by simp
next
  case (Cons a sched)
  have "addressOwners (st (step env fl a p))"
    using Cons.prems by (cases a) (simp_all add: addressOwners_mainStep addressOwners_sessionEnd)
  from Cons.IH [OF this] show ?case by simp
qed

lemma addressOwners_initial: "addressOwners (st initial)"
  by (simp add: addressOwners_def initial_def)

lemma activeSessions_subset: "set (activeSessions p) \<subseteq> set (spawned (st p))"
  by (auto simp: activeSessions_def)

text \<open>
  C7, amended. At every point of every run the address of each active session is
  claimed in the allocation table, and two active sessions with the same address were
  started for the same service, pod, context and interface: they differ at most in
  their ports.
\<close>

theorem address_shared_within_service:
  "(\<forall>a \<in> set (activeSessions (run env fl sched)).
      allocated (table (st (run env fl sched))) (IP_String (pfo_LocalIP a)) = Some True) \<and>
   (\<forall>a \<in> set (activeSessions (run env fl sched)).
      \<forall>b \<in> set (activeSessions (run env fl sched)).
        pfo_LocalIP a = pfo_LocalIP b \<longrightarrow> sameService a b)"
proof -
  have "addressOwners (st (run env fl sched))"
    unfolding run_def by (rule addressOwners_exec) (rule addressOwners_initial)
  then show ?thesis
    using activeSessions_subset [of "run env fl sched"]
    unfolding addressOwners_def by (auto simp: subset_iff)
qed

lemmas eval_simps = 
  run_def initial_def mainStep_def runStart_def fwdServices_def say_def Let_def
  fwdnet_Allocate_def Allocate_def parse_1_3 range_1_3 IP_String_10 probe_none_live_def
  mapToSelectorStr_def noBackingPods_def resolvePodPort_def Atoi_def isDigit_def digitVal_def Itoa_def
  natString.simps digitChar_def

lemma web_forwarding:
  "map (\<lambda>a. (IP_String (pfo_LocalIP a), pfo_Service a, pfo_LocalPort a, pfo_PodPort a))
     (spawned (st (run env_ok flags0 forwarding))) =
   [(''10.0.0.1'', ''web'', ''80'', ''8080''), (''10.0.0.1'', ''web'', ''9090'', ''9090'')]"
  by (simp add: eval_simps env_ok_def flags0_def forwarding_def svc_web_def svc_headless_def pod_web_def)

lemma fwdServices_loop_counts:
  "wg (snd (fwdServices_loop env fl opts svcs s)) -
     int (length (spawned (snd (fwdServices_loop env fl opts svcs s)))) =
   wg s - int (length (spawned s)) \<and>
   length (spawned s) \<le> length (spawned (snd (fwdServices_loop env fl opts svcs s)))"
proof (rule fwdServices_loop_invariant
    [where Q = "\<lambda>s'. wg s' - int (length (spawned s')) = wg s - int (length (spawned s)) \<and>
                      length (spawned s) \<le> length (spawned s')"])
  show "wg s - int (length (spawned s)) = wg s - int (length (spawned s)) \<and>
        length (spawned s) \<le> length (spawned s)"
    by simp
next
  show "\<And>e s'. wg s' - int (length (spawned s')) = wg s - int (length (spawned s)) \<and>
          length (spawned s) \<le> length (spawned s') \<Longrightarrow>
        wg (say e s') - int (length (spawned (say e s'))) = wg s - int (length (spawned s)) \<and>
          length (spawned s) \<le> length (spawned (say e s'))"
    by (simp add: say_def)
next
  show "\<And>s' r res t1. wg s' - int (length (spawned s')) = wg s - int (length (spawned s)) \<and>
          length (spawned s) \<le> length (spawned s') \<Longrightarrow>
        fwdnet_Allocate env r (table s') = (Inl res, t1) \<Longrightarrow>
        wg (s'\<lparr>table := t1\<rparr>) - int (length (spawned (s'\<lparr>table := t1\<rparr>))) =
          wg s - int (length (spawned s)) \<and>
          length (spawned s) \<le> length (spawned (s'\<lparr>table := t1\<rparr>))"
    by simp
next
  fix s' :: State and r ip t1 svc pod ports e1 e2
  assume h: "wg s' - int (length (spawned s')) = wg s - int (length (spawned s)) \<and>
          length (spawned s) \<le> length (spawned s')"
  let ?s1 = "say e2 (say e1 (s'\<lparr>table := t1\<rparr>))"
  let ?s2 = "fwdPorts env fl opts svc pod ip ports ?s1"
  have "wg ?s2 - int (length (spawned ?s2)) = wg ?s1 - int (length (spawned ?s1))"
    by (rule fwdPorts_wg)
  moreover obtain new where "spawned ?s2 = spawned ?s1 @ new"
    using fwdPorts_spawned [of env fl opts svc pod ip ports ?s1] by blast
  ultimately show "wg ?s2 - int (length (spawned ?s2)) = wg s - int (length (spawned s)) \<and>
          length (spawned s) \<le> length (spawned ?s2)"
    using h by (simp add: say_def)
qed

lemma fwdServices_counts:
  "wg (snd (fwdServices env fl opts s)) - int (length (spawned (snd (fwdServices env fl opts s)))) =
   wg s - int (length (spawned s)) \<and>
   length (spawned s) \<le> length (spawned (snd (fwdServices env fl opts s)))"
  using fwdServices_loop_counts [of env fl opts _ s]
  by (cases "Services_List env (Context opts) (Namespace opts) (ListOptions opts)")
     (simp_all add: fwdServices_def)

lemma ended_room:
  assumes "distinct es" and "set es \<subseteq> {..< n}" and "i < n" and "i \<notin> set es"
  shows "length es < n"
proof -
  have "set es \<subseteq> {..< n} - {i}" using assms by auto
  then have "card (set es) \<le> card ({..< n} - {i})" by (intro card_mono) simp_all
  also have "\<dots> = n - 1" using assms(3) by simp
  finally show ?thesis using assms(1,3) by (simp add: distinct_card)
qed

lemma ended_all:
  assumes "distinct es" and "set es \<subseteq> {..< n}" and "length es = n"
  shows "set es = {..< n}"
proof (rule card_subset_eq)
  show "finite {..< n}" by simp
  show "set es \<subseteq> {..< n}" by (rule assms(2))
  show "card (set es) = card {..< n}" using assms(1,3) by (simp add: distinct_card)
qed

lemma over_simps:
  "\<not> over AtStart" "\<not> over (InContexts i ctxs)" "\<not> over (InNamespaces i ctx ii nss ctxs)"
  "\<not> over AtWait" "\<not> over AtSave" "over (Exited h)" "over Returned"
  by (simp_all add: over_def)

lemma barrier_mainStep:
  assumes b: "barrier env p"
  shows "barrier env (mainStep env fl p)"
proof (cases "pc p")
  case AtStart
  with b have s0: "saves p = 0" by (simp add: barrier_def over_simps)
  have m: "mainStep env fl p = runStart env fl p" using AtStart by (simp add: mainStep_def)
  show ?thesis
    unfolding m barrier_def
    using b s0 runStart_keeps [of env fl p] runStart_pc [of env fl p]
    by (auto simp: barrier_def)
next
  case (InContexts i ctxs)
  with b have s0: "saves p = 0" by (simp add: barrier_def over_simps)
  show ?thesis
  proof (cases ctxs)
    case Nil
    then have "mainStep env fl p = p\<lparr>pc := AtWait\<rparr>" using InContexts by (simp add: mainStep_def)
    then show ?thesis using b s0 by (simp add: barrier_def over_simps)
  next
    case (Cons ctx ctxs')
    have "(\<exists>msg. mainStep env fl p = fatal msg p) \<or>
          mainStep env fl p = p\<lparr>pc := InNamespaces i ctx 0 (namespaces_now p) ctxs'\<rparr>"
      using InContexts Cons
      by (cases "GetRestConfig env (kubeconfig fl) ctx"; cases "NewForConfig env ctx")
         (auto simp: mainStep_def)
    then show ?thesis
    proof (elim disjE exE)
      fix msg
      assume "mainStep env fl p = fatal msg p"
      then show ?thesis using b s0 fatal_keeps [of msg p] by (simp add: barrier_def over_simps)
    next
      assume "mainStep env fl p = p\<lparr>pc := InNamespaces i ctx 0 (namespaces_now p) ctxs'\<rparr>"
      then show ?thesis using b s0 by (simp add: barrier_def over_simps)
    qed
  qed
next
  case (InNamespaces i ctx ii nss ctxs)
  with b have s0: "saves p = 0" by (simp add: barrier_def over_simps)
  show ?thesis
  proof (cases nss)
    case Nil
    then have "mainStep env fl p = p\<lparr>pc := InContexts (i + 1) ctxs\<rparr>"
      using InNamespaces by (simp add: mainStep_def)
    then show ?thesis using b s0 by (simp add: barrier_def over_simps)
  next
    case (Cons ns nss')
    let ?opts = "\<lparr>Context = ctx, Namespace = ns, ListOptions = selector_flag fl,
                   ShortName = (i < 1 \<and> ii < 1), Remote = (i > 0),
                   NetworkInterface = iface fl, NetworkRange = networkRange fl,
                   ExitOnFail = exitOnFail fl\<rparr>"
    obtain res s1 where f: "fwdServices env fl ?opts (st p) = (res, s1)"
      by (cases "fwdServices env fl ?opts (st p)")
    from fwdServices_counts [of env fl ?opts "st p"] f
    have c: "wg s1 - int (length (spawned s1)) = wg (st p) - int (length (spawned (st p)))"
      and l: "length (spawned (st p)) \<le> length (spawned s1)"
      by simp_all
    from b have w: "wg (st p) = int (length (spawned (st p))) - int (length (ended p))"
      and d: "distinct (ended p)" and e: "set (ended p) \<subseteq> {..< length (spawned (st p))}"
      by (simp_all add: barrier_def)
    have w1: "wg s1 = int (length (spawned s1)) - int (length (ended p))" using c w by simp
    have e1: "set (ended p) \<subseteq> {..< length (spawned s1)}" using e l by auto
    have "\<exists>s2 c2. mainStep env fl p = p\<lparr>st := s2, pc := c2\<rparr> \<and> wg s2 = wg s1 \<and>
            spawned s2 = spawned s1 \<and> c2 \<noteq> AtSave \<and> c2 \<noteq> Returned"
    proof (cases res)
      case (Inl h)
      then have "mainStep env fl p = p\<lparr>st := s1, pc := Exited h\<rparr>"
        using InNamespaces Cons f by (simp add: mainStep_def)
      then show ?thesis by (intro exI [of _ s1] exI [of _ "Exited h"]) simp
    next
      case (Inr r)
      show ?thesis
      proof (cases r)
        case None
        then have "mainStep env fl p = p\<lparr>st := s1, pc := InNamespaces i ctx (ii + 1) nss' ctxs\<rparr>"
          using InNamespaces Cons f Inr by (simp add: mainStep_def)
        then show ?thesis
          by (intro exI [of _ s1] exI [of _ "InNamespaces i ctx (ii + 1) nss' ctxs"]) simp
      next
        case (Some err)
        then have "mainStep env fl p =
            p\<lparr>st := say (Print (''Error forwarding service: '' @ err)) s1,
              pc := InNamespaces i ctx (ii + 1) nss' ctxs\<rparr>"
          using InNamespaces Cons f Inr by (simp add: mainStep_def)
        then show ?thesis
          by (intro exI [of _ "say (Print (''Error forwarding service: '' @ err)) s1"]
                exI [of _ "InNamespaces i ctx (ii + 1) nss' ctxs"]) (simp add: say_def)
      qed
    qed
    then obtain s2 c2 where m: "mainStep env fl p = p\<lparr>st := s2, pc := c2\<rparr>"
      and s2: "wg s2 = wg s1" "spawned s2 = spawned s1"
      and c2: "c2 \<noteq> AtSave" "c2 \<noteq> Returned"
      by blast
    show ?thesis
      unfolding m barrier_def using w1 e1 d s0 s2 c2 by simp
  qed
next
  case AtWait
  with b have s0: "saves p = 0" by (simp add: barrier_def over_simps)
  show ?thesis
    using AtWait b s0 by (auto simp: mainStep_def barrier_def over_simps say_def)
next
  case AtSave
  with b have s0: "saves p = 0" and w0: "wg (st p) = 0" by (simp_all add: barrier_def over_simps)
  show ?thesis
    using AtSave b s0 w0
    by (auto simp: mainStep_def barrier_def over_simps say_def fatal_def Let_def split: option.splits)
next
  case (Exited h)
  then show ?thesis using b by (simp add: mainStep_def)
next
  case Returned
  then show ?thesis using b by (simp add: mainStep_def)
qed

lemma barrier_sessionEnd:
  assumes b: "barrier env p"
  shows "barrier env (sessionEnd env i p)"
proof (cases "over (pc p) \<or> \<not> i < length (spawned (st p)) \<or> i \<in> set (ended p)")
  case True
  then show ?thesis using b by (simp add: sessionEnd_def)
next
  case enabled: False
  show ?thesis
  proof (cases "PortForward env (spawned (st p) ! i)")
    case Blocks
    then show ?thesis using b enabled by (simp add: sessionEnd_def)
  next
    case (Ends err)
    let ?s = "sessionTeardown env (spawned (st p) ! i) err (st p)"
    have m: "sessionEnd env i p = p\<lparr>st := ?s, ended := i # ended p\<rparr>"
      using enabled Ends by (simp add: sessionEnd_def)
    from b have w: "wg (st p) = int (length (spawned (st p))) - int (length (ended p))"
      and d: "distinct (ended p)" and e: "set (ended p) \<subseteq> {..< length (spawned (st p))}"
      and s0: "saves p = 0"
      using enabled by (simp_all add: barrier_def)
    from enabled have i: "i < length (spawned (st p))" "i \<notin> set (ended p)" by simp_all
    have room: "length (ended p) < length (spawned (st p))"
      by (rule ended_room [OF d e i])
    then have pos: "wg (st p) \<noteq> 0" using w by simp
    with b have nosave: "pc p \<noteq> AtSave" by (auto simp: barrier_def)
    from enabled have nr: "pc p \<noteq> Returned" by (auto simp: over_def)
    show ?thesis
      unfolding m barrier_def
      using sessionTeardown_keeps [of env "spawned (st p) ! i" err "st p"] w d e s0 i nosave nr enabled
      by simp
  qed
qed

lemma barrier_exec: "barrier env p \<Longrightarrow> barrier env (exec env fl sched p)"
proof (induction sched arbitrary: p)
  case Nil
  then show ?case by simp
next
  case (Cons a sched)
  have "barrier env (step env fl a p)"
    using Cons.prems by (cases a) (simp_all add: barrier_mainStep barrier_sessionEnd)
  from Cons.IH [OF this] show ?case by simp
qed

lemma barrier_initial: "barrier env initial"
  by (simp add: barrier_def initial_def over_def)

lemma barrier_run: "barrier env (run env fl sched)"
  unfolding run_def by (rule barrier_exec) (rule barrier_initial)

lemma exec_over: "over (pc p) \<Longrightarrow> exec env fl sched p = p"
proof (induction sched)
  case Nil
  then show ?case by simp
next
  case (Cons a sched)
  from Cons.prems have "step env fl a p = p"
    by (cases a; cases "pc p") (simp_all add: mainStep_def sessionEnd_def over_def)
  then show ?case using Cons by simp
qed

lemma exec_append: "exec env fl (xs @ ys) p = exec env fl ys (exec env fl xs p)"
  by (induction xs arbitrary: p) simp_all

lemma mainStep_saves: "pc p \<noteq> AtSave \<Longrightarrow> saves (mainStep env fl p) = saves p"
proof (cases "pc p")
  case AtStart
  then show ?thesis using runStart_keeps [of env fl p] by (simp add: mainStep_def)
next
  case (InContexts i ctxs)
  then show ?thesis
    by (cases ctxs) (simp_all add: mainStep_def fatal_def split: option.splits)
next
  case (InNamespaces i ctx ii nss ctxs)
  then show ?thesis
    by (cases nss) (simp_all add: mainStep_def split: prod.splits sum.splits option.splits)
next
  case AtWait
  then show ?thesis by (simp add: mainStep_def)
next
  case AtSave
  assume "pc p \<noteq> AtSave"
  with AtSave show ?thesis by simp
next
  case (Exited h)
  then show ?thesis by (simp add: mainStep_def)
next
  case Returned
  then show ?thesis by (simp add: mainStep_def)
qed

lemma step_saves: "pc p \<noteq> AtSave \<Longrightarrow> saves (step env fl a p) = saves p"
  by (cases a) (simp_all add: mainStep_saves sessionEnd_def split: tunnel.splits)

lemma runStart_not_root: "\<not> fst (CheckRoot env) \<Longrightarrow> over (pc (runStart env fl p))"
  by (simp add: runStart_def fatal_def over_def Let_def split: option.splits)

lemma not_root_no_Save:
  "\<not> fst (CheckRoot env) \<Longrightarrow> pc p = AtStart \<Longrightarrow> spawned (st p) = [] \<Longrightarrow> saves p = 0 \<Longrightarrow>
   saves (exec env fl sched p) = 0"
proof (induction sched)
  case Nil
  then show ?case by simp
next
  case (Cons a sched)
  show ?case
  proof (cases a)
    case MainThread
    have m: "mainStep env fl p = runStart env fl p" using Cons.prems(2) by (simp add: mainStep_def)
    have "over (pc (mainStep env fl p))" unfolding m by (rule runStart_not_root) (rule Cons.prems(1))
    then have "exec env fl (a # sched) p = mainStep env fl p"
      using MainThread by (simp add: exec_over)
    then show ?thesis using m runStart_keeps [of env fl p] Cons.prems(4) by simp
  next
    case (SessionEnd i)
    then have "step env fl a p = p" using Cons.prems(3) by (simp add: sessionEnd_def)
    then show ?thesis using Cons by simp
  qed
qed

lemma ends_elsewhere_no_Save:
  assumes live: "\<not> over (pc (run env fl pre))"
    and nosave: "pc (run env fl pre) \<noteq> AtSave"
    and ends: "over (pc (run env fl (pre @ [a])))"
  shows "saves (run env fl (pre @ a # post)) = 0"
proof -
  let ?p = "run env fl pre"
  have s0: "saves ?p = 0" using barrier_run [of env fl pre] live by (simp add: barrier_def)
  have r1: "run env fl (pre @ [a]) = step env fl a ?p" by (simp add: run_def exec_append)
  have "run env fl (pre @ a # post) = exec env fl post (step env fl a ?p)"
    by (simp add: run_def exec_append)
  also have "\<dots> = step env fl a ?p" using ends r1 by (simp add: exec_over)
  finally show ?thesis using step_saves [OF nosave, of env fl a] s0 by simp
qed

text \<open>
  C9, amended. In every run \<^verbatim>\<open>hostFile.Save()\<close> is called at most once, and when it has
  been called the counter of the wait group is 0 and every session that was started
  has run to its end, teardown included: no session is active. It has been called
  exactly once when the command returns after a successful superuser check. It has not
  been called while the process is still running, nor in a run whose superuser check
  fails, nor in a run that ends at a step other than the call itself; the end of the
  process inside \<^verbatim>\<open>fwdServices\<close> (by \<^verbatim>\<open>os.Exit\<close> or a panic) is such a step.
\<close>

theorem Save_after_barrier:
  "saves (run env fl sched) \<le> 1 \<and>
   (saves (run env fl sched) = 1 \<longrightarrow>
      wg (st (run env fl sched)) = 0 \<and>
      set (ended (run env fl sched)) = {..< length (spawned (st (run env fl sched)))} \<and>
      activeSessions (run env fl sched) = []) \<and>
   (pc (run env fl sched) = Returned \<and> fst (CheckRoot env) \<longrightarrow> saves (run env fl sched) = 1) \<and>
   (\<not> over (pc (run env fl sched)) \<longrightarrow> saves (run env fl sched) = 0) \<and>
   (\<not> fst (CheckRoot env) \<longrightarrow> saves (run env fl sched) = 0) \<and>
   (\<not> over (pc (run env fl pre)) \<and> pc (run env fl pre) \<noteq> AtSave \<and>
    over (pc (run env fl (pre @ [a]))) \<longrightarrow>
      saves (run env fl (pre @ a # post)) = 0) \<and>
   (pc (run env fl pre) = InNamespaces i ctx ii (ns # nss) ctxs \<and>
    fst (fwdServices env fl
           \<lparr>Context = ctx, Namespace = ns, ListOptions = selector_flag fl,
            ShortName = (i < 1 \<and> ii < 1), Remote = (i > 0), NetworkInterface = iface fl,
            NetworkRange = networkRange fl, ExitOnFail = exitOnFail fl\<rparr>
           (st (run env fl pre))) = Inl h \<longrightarrow>
      pc (run env fl (pre @ MainThread # post)) = Exited h \<and>
      saves (run env fl (pre @ MainThread # post)) = 0)"
proof -
  let ?p = "run env fl sched"
  note b = barrier_run [of env fl sched]
  have all: "set (ended ?p) = {..< length (spawned (st ?p))}" if "saves ?p = 1"
  proof (rule ended_all)
    show "distinct (ended ?p)" using b by (simp add: barrier_def)
    show "set (ended ?p) \<subseteq> {..< length (spawned (st ?p))}" using b by (simp add: barrier_def)
    show "length (ended ?p) = length (spawned (st ?p))" using b that by (simp add: barrier_def)
  qed
  have act: "activeSessions ?p = []" if "saves ?p = 1"
    using all [OF that] by (auto simp: activeSessions_def filter_empty_conv)
  have first: "saves ?p \<le> 1 \<and>
     (saves ?p = 1 \<longrightarrow> wg (st ?p) = 0 \<and> set (ended ?p) = {..< length (spawned (st ?p))} \<and>
        activeSessions ?p = []) \<and>
     (pc ?p = Returned \<and> fst (CheckRoot env) \<longrightarrow> saves ?p = 1) \<and>
     (\<not> over (pc ?p) \<longrightarrow> saves ?p = 0)"
    using b all act by (auto simp: barrier_def)
  have root: "\<not> fst (CheckRoot env) \<longrightarrow> saves ?p = 0"
    unfolding run_def by (auto intro!: not_root_no_Save simp: initial_def)
  have other: "\<not> over (pc (run env fl pre)) \<and> pc (run env fl pre) \<noteq> AtSave \<and>
      over (pc (run env fl (pre @ [a]))) \<longrightarrow> saves (run env fl (pre @ a # post)) = 0"
    using ends_elsewhere_no_Save [of env fl pre a post] by blast
  have inside: "pc (run env fl (pre @ MainThread # post)) = Exited h \<and>
      saves (run env fl (pre @ MainThread # post)) = 0"
    if h: "pc (run env fl pre) = InNamespaces i ctx ii (ns # nss) ctxs \<and>
      fst (fwdServices env fl
           \<lparr>Context = ctx, Namespace = ns, ListOptions = selector_flag fl,
            ShortName = (i < 1 \<and> ii < 1), Remote = (i > 0), NetworkInterface = iface fl,
            NetworkRange = networkRange fl, ExitOnFail = exitOnFail fl\<rparr>
           (st (run env fl pre))) = Inl h"
  proof -
    let ?q = "run env fl pre"
    from h have x: "pc (mainStep env fl ?q) = Exited h"
      by (auto simp: mainStep_def split: prod.splits)
    have r1: "run env fl (pre @ [MainThread]) = mainStep env fl ?q"
      by (simp add: run_def exec_append)
    have r2: "run env fl (pre @ MainThread # post) = mainStep env fl ?q"
      using x by (simp add: run_def exec_append exec_over over_def)
    have "saves (run env fl (pre @ MainThread # post)) = 0"
      using h x r1 by (intro ends_elsewhere_no_Save) (simp_all add: over_def)
    then show ?thesis using r2 x by simp
  qed
  show ?thesis using first root other inside by blast
qed

lemma bind_failure_exits:
  assumes sel: "mapToSelectorStr (svc_Selector svc) \<noteq> []"
    and pods: "Pods_List env (Context opts) (svc_Namespace svc) (mapToSelectorStr (svc_Selector svc)) =
                 Inr (pod # pods)"
    and alloc: "fwdnet_Allocate env (NetworkRange opts) (table s) = (Inr ip, t1)"
    and bind: "ip_addr_add env (IP_String ip) (NetworkInterface opts) = Some err"
  shows "fst (fwdServices_loop env fl opts (svc # svcs) s) = Inl (OsExit 1) \<and>
         spawned (snd (fwdServices_loop env fl opts (svc # svcs) s)) = spawned s"
  using sel pods alloc bind by (simp add: Let_def say_def)

text \<open>
  C8, amended. The process ends with code 1 when the superuser check fails with an
  error; when the check reports no privileges without an error the command returns
  (code 0) and nothing is forwarded. A failing \<^verbatim>\<open>ip addr add\<close> ends the loop over the
  services with \<^verbatim>\<open>os.Exit(1)\<close>, the services left are not looked at, and the whole
  process is over with code 1: no later step of any goroutine changes anything. A run
  that reaches \<^verbatim>\<open>hostFile.Save()\<close> and saves without error ends with code 0.
\<close>

theorem exit_codes:
  "(CheckRoot env = (False, Some err) \<longrightarrow>
      exitCode (pc (run env fl (MainThread # sched))) = Some 1) \<and>
   (CheckRoot env = (False, None) \<longrightarrow>
      exitCode (pc (run env fl (MainThread # sched))) = Some 0 \<and>
      spawned (st (run env fl (MainThread # sched))) = []) \<and>
   (mapToSelectorStr (svc_Selector svc) \<noteq> [] \<and>
    Pods_List env (Context opts) (svc_Namespace svc) (mapToSelectorStr (svc_Selector svc)) =
      Inr (pod # pods) \<and>
    fwdnet_Allocate env (NetworkRange opts) (table s) = (Inr ip, t1) \<and>
    ip_addr_add env (IP_String ip) (NetworkInterface opts) = Some err \<longrightarrow>
      fst (fwdServices_loop env fl opts (svc # svcs) s) = Inl (OsExit 1) \<and>
      spawned (snd (fwdServices_loop env fl opts (svc # svcs) s)) = spawned s) \<and>
   (pc p = InNamespaces i ctx ii (ns # nss) ctxs \<and>
    fst (fwdServices env fl
           \<lparr>Context = ctx, Namespace = ns, ListOptions = selector_flag fl,
            ShortName = (i < 1 \<and> ii < 1), Remote = (i > 0), NetworkInterface = iface fl,
            NetworkRange = networkRange fl, ExitOnFail = exitOnFail fl\<rparr> (st p)) = Inl (OsExit 1) \<longrightarrow>
      exitCode (pc (exec env fl (MainThread # sched) p)) = Some 1 \<and>
      exec env fl (MainThread # sched) p = mainStep env fl p) \<and>
   (pc p = AtSave \<and> Hostfile_Save env = None \<longrightarrow>
      exitCode (pc (exec env fl (MainThread # sched) p)) = Some 0)"
proof (intro conjI impI)
  assume c: "CheckRoot env = (False, Some err)"
  then have "pc (mainStep env fl initial) = Exited (OsExit 1)"
    by (simp add: mainStep_def runStart_def initial_def fatal_def)
  then show "exitCode (pc (run env fl (MainThread # sched))) = Some 1"
    by (simp add: run_def exec_over over_def exitCode_def)
next
  assume c: "CheckRoot env = (False, None)"
  then have r: "pc (mainStep env fl initial) = Returned"
    and s: "spawned (st (mainStep env fl initial)) = []"
    by (simp_all add: mainStep_def runStart_def initial_def say_def)
  from r show "exitCode (pc (run env fl (MainThread # sched))) = Some 0"
    by (simp add: run_def exec_over over_def exitCode_def)
  from r s show "spawned (st (run env fl (MainThread # sched))) = []"
    by (simp add: run_def exec_over over_def)
next
  assume h: "mapToSelectorStr (svc_Selector svc) \<noteq> [] \<and>
    Pods_List env (Context opts) (svc_Namespace svc) (mapToSelectorStr (svc_Selector svc)) =
      Inr (pod # pods) \<and>
    fwdnet_Allocate env (NetworkRange opts) (table s) = (Inr ip, t1) \<and>
    ip_addr_add env (IP_String ip) (NetworkInterface opts) = Some err"
  then have b: "fst (fwdServices_loop env fl opts (svc # svcs) s) = Inl (OsExit 1) \<and>
      spawned (snd (fwdServices_loop env fl opts (svc # svcs) s)) = spawned s"
    by (intro bind_failure_exits [where pod = pod and pods = pods and ip = ip and ?t1.0 = t1
          and err = err]) simp_all
  from b show "fst (fwdServices_loop env fl opts (svc # svcs) s) = Inl (OsExit 1)" by simp
  from b show "spawned (snd (fwdServices_loop env fl opts (svc # svcs) s)) = spawned s" by simp
next
  assume h: "pc p = InNamespaces i ctx ii (ns # nss) ctxs \<and>
    fst (fwdServices env fl
           \<lparr>Context = ctx, Namespace = ns, ListOptions = selector_flag fl,
            ShortName = (i < 1 \<and> ii < 1), Remote = (i > 0), NetworkInterface = iface fl,
            NetworkRange = networkRange fl, ExitOnFail = exitOnFail fl\<rparr> (st p)) = Inl (OsExit 1)"
  then have x: "pc (mainStep env fl p) = Exited (OsExit 1)"
    by (auto simp: mainStep_def split: prod.splits)
  then show "exitCode (pc (exec env fl (MainThread # sched) p)) = Some 1"
    by (simp add: exec_over over_def exitCode_def)
  from x show "exec env fl (MainThread # sched) p = mainStep env fl p"
    by (simp add: exec_over over_def)
next
  assume "pc p = AtSave \<and> Hostfile_Save env = None"
  then have "pc (mainStep env fl p) = Returned"
    by (simp add: mainStep_def Let_def)
  then show "exitCode (pc (exec env fl (MainThread # sched) p)) = Some 0"
    by (simp add: exec_over over_def exitCode_def)
qed

lemmas fixture_simps =
  env_ok_def env_not_root_def env_root_error_def env_bind_fails_def env_tunnels_end_def flags0_def
  forwarding_def complete_run_def opts0_def svc_web_def svc_headless_def pod_web_def

lemmas session_simps =
  sessionEnd_def sessionTeardown_def deleteIP_def over_def activeSessions_def sessionAddress_def
  exitCode_def fatal_def

theorem empty_selector_skipped_witness:
  "svc_Selector svc_headless = [] \<and>
   fwdServices_loop env_ok flags0 opts0 [svc_headless, svc_headless] (st initial) =
     (Inr None,
      (st initial)\<lparr>log := [Warning ''No backing pods for service db in default on cluster .'',
                          Warning ''No backing pods for service db in default on cluster .'']\<rparr>) \<and>
   map sessionAddress
     (spawned (snd (fwdServices_loop env_ok flags0 opts0 [svc_headless, svc_web] (st initial)))) =
     [''10.0.0.1'', ''10.0.0.1'']"
  using empty_selector_skipped [of svc_headless env_ok flags0 opts0 "[svc_headless]" "st initial"]
    empty_selector_skipped [of svc_headless env_ok flags0 opts0 "[svc_web]" "st initial"]
  by (simp add: eval_simps fixture_simps session_simps)

text \<open>
  C7, as stated, fails: the address is allocated once for a service and every port of
  the service gets a session on it. After the service \<open>web\<close> with two ports has
  been forwarded, two active sessions hold the claimed address \<open>10.0.0.1\<close>.
\<close>

theorem two_sessions_share_address:
  "map sessionAddress (activeSessions (run env_ok flags0 forwarding)) = [''10.0.0.1'', ''10.0.0.1''] \<and>
   allocated (table (st (run env_ok flags0 forwarding))) ''10.0.0.1'' = Some True"
  by (simp add: eval_simps fixture_simps session_simps upt_rec)

theorem address_shared_within_service_witness:
  "map sessionAddress (activeSessions (run env_ok flags0 forwarding)) = [''10.0.0.1'', ''10.0.0.1''] \<and>
   map pfo_LocalPort (activeSessions (run env_ok flags0 forwarding)) = [''80'', ''9090''] \<and>
   sameService (activeSessions (run env_ok flags0 forwarding) ! 0)
     (activeSessions (run env_ok flags0 forwarding) ! 1) \<and>
   allocated (table (st (run env_ok flags0 forwarding))) ''10.0.0.1'' = Some True"
  using address_shared_within_service [of env_ok flags0 forwarding]
  by (simp add: eval_simps fixture_simps session_simps upt_rec sameService_def)

text \<open>
  C8, as stated, fails: when the superuser check reports no privileges and no error,
  the command prints its notice and returns, and the process ends with code 0.
\<close>

theorem not_root_exit_code:
  "exitCode (pc (run env_not_root flags0 [MainThread])) = Some 0"
  by (simp add: eval_simps fixture_simps session_simps)

theorem exit_codes_witness:
  "exitCode (pc (run env_root_error flags0 [MainThread])) = Some 1 \<and>
   exitCode (pc (run env_not_root flags0 [MainThread])) = Some 0 \<and>
   exitCode (pc (run env_bind_fails flags0 forwarding)) = Some 1 \<and>
   spawned (st (run env_bind_fails flags0 forwarding)) = [] \<and>
   exitCode (pc (run env_tunnels_end flags0 complete_run)) = Some 0"
  using exit_codes [of env_root_error "''exit status 1''" flags0 "[]"]
    exit_codes [of env_not_root _ flags0 "[]"]
    exit_codes [of env_bind_fails "''exit status 2''" flags0 "[]" svc_web opts0 pod_web "[]"
      "st initial" "167772161" "\<lparr>allocated = [''10.0.0.1'' \<mapsto> True], probed = [''10.0.0.1'']\<rparr>" "[]"
      "run env_bind_fails flags0 [MainThread, MainThread]" 0 "''minikube''" 0 "''default''" "[]" "[]"]
    exit_codes [of env_tunnels_end _ flags0 "[]" _ _ _ _ _ _ _ _
      "run env_tunnels_end flags0 (butlast complete_run)"]
  by (simp add: eval_simps fixture_simps session_simps)

text \<open>
  C9, as stated, fails: a run that ends before the barrier, here by a failing
  \<^verbatim>\<open>ip addr add\<close>, never calls \<^verbatim>\<open>hostFile.Save()\<close>.
\<close>

theorem bind_failure_without_Save:
  "pc (run env_bind_fails flags0 forwarding) = Exited (OsExit 1) \<and>
   saves (run env_bind_fails flags0 forwarding) = 0"
  by (simp add: eval_simps fixture_simps session_simps)

theorem Save_after_barrier_witness:
  "fst (CheckRoot env_tunnels_end) \<and>
   pc (run env_tunnels_end flags0 complete_run) = Returned \<and>
   saves (run env_tunnels_end flags0 complete_run) = 1 \<and>
   length (spawned (st (run env_tunnels_end flags0 complete_run))) = 2 \<and>
   activeSessions (run env_tunnels_end flags0 complete_run) = [] \<and>
   \<not> over (pc (run env_ok flags0 forwarding)) \<and>
   saves (run env_ok flags0 forwarding) = 0 \<and>
   \<not> fst (CheckRoot env_not_root) \<and>
   saves (run env_not_root flags0 [MainThread]) = 0 \<and>
   pc (run env_bind_fails flags0 [MainThread, MainThread]) =
     InNamespaces 0 ''minikube'' 0 [''default''] [] \<and>
   pc (run env_bind_fails flags0 ([MainThread, MainThread] @ [MainThread])) = Exited (OsExit 1) \<and>
   saves (run env_bind_fails flags0 ([MainThread, MainThread] @ [MainThread])) = 0"
  using Save_after_barrier [of env_tunnels_end flags0 complete_run]
    Save_after_barrier [of env_ok flags0 forwarding]
    Save_after_barrier [of env_not_root flags0 "[MainThread]"]
    Save_after_barrier [of env_bind_fails flags0 "[]" "[MainThread, MainThread]" MainThread "[]"
      0 "''minikube''" 0 "''default''" "[]" "[]" "OsExit 1"]
  by (simp add: eval_simps fixture_simps session_simps)

end
